theory Spec2Isabelle
  imports Complex_Main
begin

section \<open>Numbers\<close>

text \<open>
  The TypeScript type \<^verbatim>\<open>number\<close> is an IEEE 754 double. A number is modelled by the real it
  stands for, and every arithmetic operation of the source by the exact operation followed
  by \<open>double\<close>, the rounding to the nearest double, a tie going to the even significand:
  53 significant bits, exponents down to the subnormal range. A decimal literal of the
  source that is not itself a double stands for its rounding, \<open>double 0.4\<close>. Overflow to an
  infinity, NaN and the sign of zero are outside the model.
\<close>

definition binade :: "real \<Rightarrow> int" where
  "binade v = max \<lfloor>log 2 \<bar>v\<bar>\<rfloor> (- 1022)"

definition ulp :: "real \<Rightarrow> real" where
  "ulp v = 2 powi (binade v - 52)"

definition roundHalfEven :: "real \<Rightarrow> int" where
  "roundHalfEven q =
     (let f = \<lfloor>q\<rfloor> in
      if q - of_int f < 1 / 2 then f
      else if 1 / 2 < q - of_int f then f + 1
      else if even f then f else f + 1)"

definition double :: "real \<Rightarrow> real" where
  "double v = (if v = 0 then 0 else of_int (roundHalfEven (v / ulp v)) * ulp v)"

text \<open>The reals that are doubles (the largest exponent apart).\<close>

definition isDouble :: "real \<Rightarrow> bool" where
  "isDouble v \<longleftrightarrow> (\<exists>m k. v = of_int m * 2 powi k \<and> \<bar>m\<bar> < 2 ^ 53 \<and> - 1074 \<le> k)"

text \<open>The operators \<^verbatim>\<open>+\<close>, \<^verbatim>\<open>-\<close>, \<^verbatim>\<open>*\<close> and \<^verbatim>\<open>/\<close> of the source.\<close>

definition fadd :: "real \<Rightarrow> real \<Rightarrow> real" where
  "fadd a b = double (a + b)"

definition fsub :: "real \<Rightarrow> real \<Rightarrow> real" where
  "fsub a b = double (a - b)"

definition fmul :: "real \<Rightarrow> real \<Rightarrow> real" where
  "fmul a b = double (a * b)"

definition fdiv :: "real \<Rightarrow> real \<Rightarrow> real" where
  "fdiv a b = double (a / b)"

section \<open>Data model (types file of the repository)\<close>

text \<open>
  \<^verbatim>\<open>interface Point { x: number; y: number }\<close>. The fields are called \<open>px\<close> and \<open>py\<close> here,
  since \<open>x\<close> and \<open>y\<close> are wanted as variable names.
\<close>

record Point =
  px :: real
  py :: real

section \<open>Geometry kernel (utils/math.ts)\<close>

text \<open>
  \<^verbatim>\<open>getLineIntersection(p1, p2, p3, p4)\<close>: segment 1 is \<open>p1 \<rightarrow> p2\<close>, segment 2 is \<open>p3 \<rightarrow> p4\<close>.
  The three local constants of the source are kept as separate definitions.
\<close>

definition det :: "Point \<Rightarrow> Point \<Rightarrow> Point \<Rightarrow> Point \<Rightarrow> real" where
  "det p1 p2 p3 p4 =
     fsub (fmul (fsub (px p2) (px p1)) (fsub (py p4) (py p3)))
          (fmul (fsub (px p4) (px p3)) (fsub (py p2) (py p1)))"

definition lambda :: "Point \<Rightarrow> Point \<Rightarrow> Point \<Rightarrow> Point \<Rightarrow> real" where
  "lambda p1 p2 p3 p4 =
     fdiv (fadd (fmul (fsub (py p4) (py p3)) (fsub (px p4) (px p1)))
                (fmul (fsub (px p3) (px p4)) (fsub (py p4) (py p1))))
          (det p1 p2 p3 p4)"

definition gamma :: "Point \<Rightarrow> Point \<Rightarrow> Point \<Rightarrow> Point \<Rightarrow> real" where
  "gamma p1 p2 p3 p4 =
     fdiv (fadd (fmul (fsub (py p1) (py p2)) (fsub (px p4) (px p1)))
                (fmul (fsub (px p2) (px p1)) (fsub (py p4) (py p1))))
          (det p1 p2 p3 p4)"

definition getLineIntersection :: "Point \<Rightarrow> Point \<Rightarrow> Point \<Rightarrow> Point \<Rightarrow> bool" where
  "getLineIntersection p1 p2 p3 p4 =
     (if det p1 p2 p3 p4 = 0 then False
      else (0 < lambda p1 p2 p3 p4 \<and> lambda p1 p2 p3 p4 < 1) \<and>
           (0 < gamma p1 p2 p3 p4 \<and> gamma p1 p2 p3 p4 < 1))"

text \<open>
  \<open>meets p1 p2 p3 p4 t u\<close>: the point at fraction \<open>t\<close> of the way from \<open>p1\<close> to \<open>p2\<close> is the
  point at fraction \<open>u\<close> of the way from \<open>p3\<close> to \<open>p4\<close>.
\<close>

definition meets :: "Point \<Rightarrow> Point \<Rightarrow> Point \<Rightarrow> Point \<Rightarrow> real \<Rightarrow> real \<Rightarrow> bool" where
  "meets p1 p2 p3 p4 t u \<longleftrightarrow>
     px p1 + t * (px p2 - px p1) = px p3 + u * (px p4 - px p3) \<and>
     py p1 + t * (py p2 - py p1) = py p3 + u * (py p4 - py p3)"

text \<open>
  The same formulation in exact arithmetic, as the specification words it, to compare the
  source's computation with.
\<close>

definition detExact :: "Point \<Rightarrow> Point \<Rightarrow> Point \<Rightarrow> Point \<Rightarrow> real" where
  "detExact p1 p2 p3 p4 = (px p2 - px p1) * (py p4 - py p3) - (px p4 - px p3) * (py p2 - py p1)"

definition lambdaExact :: "Point \<Rightarrow> Point \<Rightarrow> Point \<Rightarrow> Point \<Rightarrow> real" where
  "lambdaExact p1 p2 p3 p4 =
     ((py p4 - py p3) * (px p4 - px p1) + (px p3 - px p4) * (py p4 - py p1)) / detExact p1 p2 p3 p4"

definition gammaExact :: "Point \<Rightarrow> Point \<Rightarrow> Point \<Rightarrow> Point \<Rightarrow> real" where
  "gammaExact p1 p2 p3 p4 =
     ((py p1 - py p2) * (px p4 - px p1) + (px p2 - px p1) * (py p4 - py p1)) / detExact p1 p2 p3 p4"

definition intersectExact :: "Point \<Rightarrow> Point \<Rightarrow> Point \<Rightarrow> Point \<Rightarrow> bool" where
  "intersectExact p1 p2 p3 p4 =
     (if detExact p1 p2 p3 p4 = 0 then False
      else (0 < lambdaExact p1 p2 p3 p4 \<and> lambdaExact p1 p2 p3 p4 < 1) \<and>
           (0 < gammaExact p1 p2 p3 p4 \<and> gammaExact p1 p2 p3 p4 < 1))"

text \<open>
  A point of the integer grid with coordinates of magnitude at most \<open>2 ^ 24\<close>: on four such
  points no operation of the test rounds, but for the two divisions.
\<close>

definition gridPoint :: "Point \<Rightarrow> bool" where
  "gridPoint p \<longleftrightarrow> px p \<in> \<int> \<and> py p \<in> \<int> \<and> \<bar>px p\<bar> \<le> 2 ^ 24 \<and> \<bar>py p\<bar> \<le> 2 ^ 24"

section \<open>Audio service\<close>

text \<open>
  Exceptions of the source are values: \<open>TypeError\<close> stands for the JavaScript TypeError
  (reading a property of \<^verbatim>\<open>undefined\<close>, calling a constructor that does not exist),
  \<open>NoAudioContext\<close> for \<^verbatim>\<open>throw new Error("No Audio Context")\<close>.
\<close>

datatype error = TypeError | NoAudioContext

text \<open>
  The Web Audio objects the service touches, as an explicit store: an audio context owns its
  nodes (a node is referred to by its position in \<open>nodes\<close>) and the connections between them.
\<close>

datatype OscillatorType = Sine | Square | Sawtooth | Triangle

datatype ParamEvent =
    SetValueAtTime real real
  | LinearRampToValueAtTime real real
  | ExponentialRampToValueAtTime real real

record AudioParam =
  pvalue :: real
  events :: "ParamEvent list"

record AudioBuffer =
  numberOfChannels :: nat
  bufferLength :: real
  bufferRate :: real
  channelData :: "nat \<Rightarrow> nat \<Rightarrow> real"

datatype Target = Destination | ToNode nat

datatype AudioNode =
    GainNode AudioParam
  | ConvolverNode "AudioBuffer option"
  | OscillatorNode OscillatorType AudioParam "real option" "real option"

record AudioContext =
  nodes :: "AudioNode list"
  connections :: "(nat \<times> Target) list"
  currentTime :: real
  sampleRate :: real
  suspended :: bool

text \<open>The three private fields of \<^verbatim>\<open>class AudioService\<close>; \<open>None\<close> is \<^verbatim>\<open>null\<close>.\<close>

record AudioService =
  ctx :: "AudioContext option"
  reverbNode :: "nat option"
  masterGain :: "nat option"

text \<open>
  What the browser supplies: whether an AudioContext constructor exists, the fresh context's
  sample rate and state, and the values \<^verbatim>\<open>Math.random()\<close> returns, in call order.
\<close>

record AudioEnv =
  audio_supported :: bool
  deviceSampleRate :: real
  startsSuspended :: bool
  noise :: "nat \<Rightarrow> real"

definition newAudioContext :: "AudioEnv \<Rightarrow> AudioContext" where
  "newAudioContext env =
     \<lparr>nodes = [], connections = [], currentTime = 0,
      sampleRate = deviceSampleRate env, suspended = startsSuspended env\<rparr>"

definition createGain :: "AudioContext \<Rightarrow> AudioContext \<times> nat" where
  "createGain c =
     (c\<lparr>nodes := nodes c @ [GainNode \<lparr>pvalue = 1, events = []\<rparr>]\<rparr>, length (nodes c))"

definition createConvolver :: "AudioContext \<Rightarrow> AudioContext \<times> nat" where
  "createConvolver c = (c\<lparr>nodes := nodes c @ [ConvolverNode None]\<rparr>, length (nodes c))"

definition createOscillator :: "AudioContext \<Rightarrow> AudioContext \<times> nat" where
  "createOscillator c =
     (c\<lparr>nodes := nodes c @ [OscillatorNode Sine \<lparr>pvalue = 440, events = []\<rparr> None None]\<rparr>,
      length (nodes c))"

definition updNode :: "nat \<Rightarrow> (AudioNode \<Rightarrow> AudioNode) \<Rightarrow> AudioContext \<Rightarrow> AudioContext" where
  "updNode n f c = (if n < length (nodes c) then c\<lparr>nodes := (nodes c)[n := f (nodes c ! n)]\<rparr> else c)"

definition connect :: "nat \<Rightarrow> Target \<Rightarrow> AudioContext \<Rightarrow> AudioContext" where
  "connect n t c = c\<lparr>connections := connections c @ [(n, t)]\<rparr>"

fun setGainValue :: "real \<Rightarrow> AudioNode \<Rightarrow> AudioNode" where
  "setGainValue v (GainNode p) = GainNode (p\<lparr>pvalue := v\<rparr>)"
| "setGainValue v n = n"

fun schedule :: "ParamEvent \<Rightarrow> AudioNode \<Rightarrow> AudioNode" where
  "schedule e (GainNode p) = GainNode (p\<lparr>events := events p @ [e]\<rparr>)"
| "schedule e (OscillatorNode ty p a b) = OscillatorNode ty (p\<lparr>events := events p @ [e]\<rparr>) a b"
| "schedule e n = n"

fun setBuffer :: "AudioBuffer \<Rightarrow> AudioNode \<Rightarrow> AudioNode" where
  "setBuffer b (ConvolverNode _) = ConvolverNode (Some b)"
| "setBuffer b n = n"

fun setType :: "OscillatorType \<Rightarrow> AudioNode \<Rightarrow> AudioNode" where
  "setType ty (OscillatorNode _ p a b) = OscillatorNode ty p a b"
| "setType ty n = n"

fun startAt :: "real \<Rightarrow> AudioNode \<Rightarrow> AudioNode" where
  "startAt t (OscillatorNode ty p _ b) = OscillatorNode ty p (Some t) b"
| "startAt t n = n"

fun stopAt :: "real \<Rightarrow> AudioNode \<Rightarrow> AudioNode" where
  "stopAt t (OscillatorNode ty p a _) = OscillatorNode ty p a (Some t)"
| "stopAt t n = n"

text \<open>
  \<^verbatim>\<open>createImpulseResponse(duration, decay, reverse)\<close>: both channels hold noise in \<open>[-1, 1)\<close>
  scaled by \<open>(1 - n / length) ^ decay\<close>. The loop draws two random numbers per sample, the
  left channel's first. \<^verbatim>\<open>Math.pow\<close> is taken as the rounding of \<open>powr\<close> (its base lies in
  \<open>[0, 1]\<close> here; the language leaves its last bits to the implementation). The data are
  the values assigned, before the array narrows them to 32 bits.
\<close>

definition createImpulseResponse ::
    "AudioEnv \<Rightarrow> AudioService \<Rightarrow> real \<Rightarrow> real \<Rightarrow> bool \<Rightarrow> error + AudioBuffer" where
  "createImpulseResponse env s duration decay reverse =
     (case ctx s of
        None \<Rightarrow> Inl NoAudioContext
      | Some c \<Rightarrow>
          (let len = fmul (sampleRate c) duration in
           Inr \<lparr>numberOfChannels = 2, bufferLength = len, bufferRate = sampleRate c,
                channelData = (\<lambda>ch i.
                  if real i < len \<and> ch < 2
                  then (let n = (if reverse then fsub len (real i) else real i)
                        in fmul (fsub (fmul (noise env (2 * i + ch)) 2) 1)
                             (double (fsub 1 (fdiv n len) powr decay)))
                  else 0)\<rparr>))"

text \<open>
  \<^verbatim>\<open>initialize()\<close>. A call that finds a context returns at once. Otherwise the constructor
  is looked up (a TypeError when neither \<^verbatim>\<open>AudioContext\<close> nor \<^verbatim>\<open>webkitAudioContext\<close> exists,
  with nothing assigned yet), and the graph is built: master gain at 0.4 into the
  destination, a convolver with the generated impulse response into the master gain.
  The call is modelled as running to its end without another call in between.
\<close>

definition initialize :: "AudioEnv \<Rightarrow> AudioService \<Rightarrow> error + AudioService" where
  "initialize env s =
     (if ctx s \<noteq> None then Inr s
      else if \<not> audio_supported env then Inl TypeError
      else
        (let c0 = newAudioContext env;
             (c1, mg) = createGain c0;
             c2 = updNode mg (setGainValue (double 0.4)) c1;
             c3 = connect mg Destination c2;
             (c4, rv) = createConvolver c3;
             s1 = s\<lparr>ctx := Some c4, reverbNode := Some rv, masterGain := Some mg\<rparr>
         in case createImpulseResponse env s1 2.0 2.0 False of
              Inl e \<Rightarrow> Inl e
            | Inr buf \<Rightarrow>
                Inr (s1\<lparr>ctx := Some (connect rv (ToNode mg) (updNode rv (setBuffer buf) c4))\<rparr>)))"

definition resume :: "AudioService \<Rightarrow> AudioService" where
  "resume s =
     (case ctx s of
        None \<Rightarrow> s
      | Some c \<Rightarrow> if suspended c then s\<lparr>ctx := Some (c\<lparr>suspended := False\<rparr>)\<rparr> else s)"

text \<open>
  \<^verbatim>\<open>Math.round\<close>: the nearest integer, a tie going up. The nearest integer of a double is a
  double, so nothing is rounded twice.
\<close>

definition Math_round :: "real \<Rightarrow> real" where
  "Math_round v = of_int \<lfloor>v + 1 / 2\<rfloor>"

definition baseFreq :: real where
  "baseFreq = 200"

definition freqRange :: real where
  "freqRange = 600"

definition freq :: "real \<Rightarrow> real" where
  "freq normalizedX = fadd baseFreq (fmul normalizedX freqRange)"

definition quantizedFreq :: "real \<Rightarrow> real" where
  "quantizedFreq normalizedX = fmul (Math_round (fdiv (freq normalizedX) 50)) 50"

text \<open>
  \<^verbatim>\<open>playPluck(normalizedX)\<close>: nothing happens unless context, master gain and reverb are all
  present. Otherwise an oscillator and a gain node are created, the oscillator is a
  triangle wave at the quantized frequency, the gain follows the attack and decay envelope,
  the oscillator feeds the gain, the gain feeds master gain and reverb, and the oscillator
  starts now and stops two seconds later.
\<close>

definition playPluck :: "real \<Rightarrow> AudioService \<Rightarrow> AudioService" where
  "playPluck normalizedX s =
     (case (ctx s, masterGain s, reverbNode s) of
        (Some c, Some mg, Some rv) \<Rightarrow>
          (let (c1, osc) = createOscillator c;
               (c2, gain) = createGain c1;
               now = currentTime c;
               c3 = updNode osc (setType Triangle) c2;
               c4 = updNode osc (schedule (SetValueAtTime (quantizedFreq normalizedX) now)) c3;
               c5 = updNode gain (schedule (SetValueAtTime 0 now)) c4;
               c6 = updNode gain (schedule
                      (LinearRampToValueAtTime (double 0.8) (fadd now (double 0.01)))) c5;
               c7 = updNode gain (schedule
                      (ExponentialRampToValueAtTime (double 0.001) (fadd now 1.5))) c6;
               c8 = connect osc (ToNode gain) c7;
               c9 = connect gain (ToNode mg) c8;
               c10 = connect gain (ToNode rv) c9;
               c11 = updNode osc (startAt now) c10;
               c12 = updNode osc (stopAt (fadd now 2.0)) c11
           in s\<lparr>ctx := Some c12\<rparr>)
      | _ \<Rightarrow> s)"

text \<open>The voices of a context are its oscillators; a voice plays at the scheduled frequencies.\<close>

fun voiceFrequencies :: "AudioNode \<Rightarrow> real list option" where
  "voiceFrequencies (OscillatorNode ty p a b) =
     Some (map (\<lambda>e. case e of SetValueAtTime v t \<Rightarrow> v
                             | LinearRampToValueAtTime v t \<Rightarrow> v
                             | ExponentialRampToValueAtTime v t \<Rightarrow> v) (events p))"
| "voiceFrequencies n = None"

definition voices :: "AudioService \<Rightarrow> real list list" where
  "voices s = (case ctx s of None \<Rightarrow> [] | Some c \<Rightarrow> List.map_filter voiceFrequencies (nodes c))"

text \<open>
  The service as its constructor leaves it, and the condition under which \<^verbatim>\<open>playPluck\<close>
  goes past its guard.
\<close>

definition newAudioService :: AudioService where
  "newAudioService = \<lparr>ctx = None, reverbNode = None, masterGain = None\<rparr>"

definition ready :: "AudioService \<Rightarrow> bool" where
  "ready s \<longleftrightarrow> ctx s \<noteq> None \<and> masterGain s \<noteq> None \<and> reverbNode s \<noteq> None"

section \<open>The per-frame callback (components/StarryCanvas.tsx)\<close>

text \<open>
  \<^verbatim>\<open>interface Ripple { id; x; y; age; maxAge; intensity }\<close>, the fields prefixed where the
  name is taken (\<open>id\<close>) or wanted for variables.
\<close>

record Ripple =
  rid :: real
  rx :: real
  ry :: real
  age :: real
  maxAge :: real
  intensity :: real

record HandLandmark =
  lx :: real
  ly :: real
  lz :: real

text \<open>
  \<^verbatim>\<open>results.multiHandLandmarks\<close> is tested for truthiness before it is iterated, so it may be
  missing: \<open>None\<close>. A hand is the array of its landmarks.
\<close>

record HandResults =
  multiHandLandmarks :: "HandLandmark list list option"

text \<open>
  What one call of the callback reads from its surroundings: whether canvas, 2D context and
  backdrop image are all there, the canvas size, and the value of
  \<^verbatim>\<open>Date.now() + Math.random()\<close> at the spawn made for plucker \<open>i\<close>.
\<close>

record FrameEnv =
  surface_ready :: bool
  width :: real
  height :: real
  freshId :: "nat \<Rightarrow> real"

text \<open>
  The state kept between calls: \<^verbatim>\<open>prevHandPosRef\<close> (the key \<^verbatim>\<open>`plucker-${i}`\<close> is the
  number \<open>i\<close>), \<^verbatim>\<open>ripplesRef\<close> and the audio service singleton.
\<close>

record CanvasState =
  prevHandPos :: "nat \<rightharpoonup> Point"
  ripples :: "Ripple list"
  audioService :: AudioService

text \<open>
  A pluck is the pair of calls \<^verbatim>\<open>audioService.playPluck(normalizedX)\<close> and
  \<^verbatim>\<open>spawnRipple(plucker.x, plucker.y)\<close>; the callback's model returns the plucks it made,
  in order, beside the new state.
\<close>

record PluckEvent =
  slot :: nat
  point :: Point
  normalizedPosition :: real

definition spawnRipple :: "real \<Rightarrow> real \<Rightarrow> real \<Rightarrow> Ripple list \<Rightarrow> Ripple list" where
  "spawnRipple fresh x y rs =
     rs @ [\<lparr>rid = fresh, rx = x, ry = y, age = 0, maxAge = 60, intensity = 1.0\<rparr>]"

text \<open>\<^verbatim>\<open>landmarks[i]\<close>, then a field of it: a TypeError when the array is too short.\<close>

definition landmarkAt :: "HandLandmark list \<Rightarrow> nat \<Rightarrow> error + HandLandmark" where
  "landmarkAt landmarks i = (if i < length landmarks then Inr (landmarks ! i) else Inl TypeError)"

definition tip :: "real \<Rightarrow> real \<Rightarrow> HandLandmark \<Rightarrow> Point" where
  "tip w h l = \<lparr>px = fmul (lx l) w, py = fmul (ly l) h\<rparr>"

record Extracted =
  leftIndex :: "Point option"
  rightIndex :: "Point option"
  activePluckers :: "Point list"

text \<open>
  Step 2 of the callback, the loop over the detected hands: \<open>handStep\<close> is the loop's body
  for one hand, \<open>extractLoop\<close> the loop, which ends at the first TypeError.
\<close>

definition handStep :: "real \<Rightarrow> real \<Rightarrow> HandLandmark list \<Rightarrow> Extracted \<Rightarrow> error + Extracted" where
  "handStep w h landmarks acc =
     (case landmarkAt landmarks 8 of
        Inl e \<Rightarrow> Inl e
      | Inr l8 \<Rightarrow>
          (case landmarkAt landmarks 12 of
             Inl e \<Rightarrow> Inl e
           | Inr l12 \<Rightarrow>
               (let indexTip = tip w h l8;
                    middleTip = tip w h l12;
                    acc1 = (if leftIndex acc = None then acc\<lparr>leftIndex := Some indexTip\<rparr>
                            else if rightIndex acc = None then acc\<lparr>rightIndex := Some indexTip\<rparr>
                            else acc)
                in Inr (acc1\<lparr>activePluckers := activePluckers acc1 @ [middleTip]\<rparr>))))"

fun extractLoop :: "real \<Rightarrow> real \<Rightarrow> HandLandmark list list \<Rightarrow> Extracted \<Rightarrow> error + Extracted" where
  "extractLoop w h [] acc = Inr acc"
| "extractLoop w h (landmarks # rest) acc =
     (case handStep w h landmarks acc of
        Inl e \<Rightarrow> Inl e
      | Inr acc1 \<Rightarrow> extractLoop w h rest acc1)"

definition extractLandmarks :: "FrameEnv \<Rightarrow> HandResults \<Rightarrow> error + Extracted" where
  "extractLandmarks env results =
     extractLoop (width env) (height env)
       (case multiHandLandmarks results of None \<Rightarrow> [] | Some hands \<Rightarrow> hands)
       \<lparr>leftIndex = None, rightIndex = None, activePluckers = []\<rparr>"

text \<open>
  Step 3, \<^verbatim>\<open>activePluckers.forEach((plucker, i) => ...)\<close> with both anchors present.
  \<open>pluckerStep\<close> is the body for plucker \<open>i\<close>: the crossing test against the stored
  position, the pluck, then the history update.
\<close>

definition pluckerStep ::
    "FrameEnv \<Rightarrow> Point \<Rightarrow> Point \<Rightarrow> nat \<Rightarrow> Point \<Rightarrow>
     CanvasState \<times> PluckEvent list \<Rightarrow> CanvasState \<times> PluckEvent list" where
  "pluckerStep env l r i plucker acc =
     (let (st, evs) = acc;
          (st1, evs1) =
            (case prevHandPos st i of
               None \<Rightarrow> (st, evs)
             | Some prev \<Rightarrow>
                 if getLineIntersection prev plucker l r
                 then (let normalizedX = fdiv (px plucker) (width env)
                       in (st\<lparr>audioService := playPluck normalizedX (audioService st),
                              ripples := spawnRipple (freshId env i) (px plucker) (py plucker)
                                           (ripples st)\<rparr>,
                           evs @ [\<lparr>slot = i, point = plucker, normalizedPosition = normalizedX\<rparr>]))
                 else (st, evs))
      in (st1\<lparr>prevHandPos := (prevHandPos st1)(i \<mapsto> plucker)\<rparr>, evs1))"

fun pluckersLoop ::
    "FrameEnv \<Rightarrow> Point \<Rightarrow> Point \<Rightarrow> nat \<Rightarrow> Point list \<Rightarrow>
     CanvasState \<times> PluckEvent list \<Rightarrow> CanvasState \<times> PluckEvent list" where
  "pluckersLoop env l r i [] acc = acc"
| "pluckersLoop env l r i (plucker # rest) acc =
     pluckersLoop env l r (Suc i) rest (pluckerStep env l r i plucker acc)"

text \<open>
  Step 4 without the drawing: every ripple ages by one, then the ripples that reached their
  \<open>maxAge\<close> are dropped. A ripple is drawn in between when its \<open>life\<close> is positive.
\<close>

definition life :: "Ripple \<Rightarrow> real" where
  "life r = fsub 1 (fdiv (age r) (maxAge r))"

definition ageRipples :: "Ripple list \<Rightarrow> Ripple list" where
  "ageRipples rs = map (\<lambda>r. r\<lparr>age := fadd (age r) 1\<rparr>) rs"

definition drawnRipples :: "Ripple list \<Rightarrow> Ripple list" where
  "drawnRipples rs = filter (\<lambda>r. \<not> life r \<le> 0) (ageRipples rs)"

definition advanceRipples :: "Ripple list \<Rightarrow> Ripple list" where
  "advanceRipples rs = filter (\<lambda>r. age r < maxAge r) (ageRipples rs)"

text \<open>
  \<^verbatim>\<open>onResults(results)\<close>. Without a surface the call returns at once. A TypeError can only
  come from the hand loop, before anything kept between calls has been written.
\<close>

definition onResults ::
    "FrameEnv \<Rightarrow> HandResults \<Rightarrow> CanvasState \<Rightarrow> error + CanvasState \<times> PluckEvent list" where
  "onResults env results st =
     (if \<not> surface_ready env then Inr (st, [])
      else
        (case extractLandmarks env results of
           Inl e \<Rightarrow> Inl e
         | Inr ex \<Rightarrow>
             (let (st1, evs) =
                    (case (leftIndex ex, rightIndex ex) of
                       (Some l, Some r) \<Rightarrow> pluckersLoop env l r 0 (activePluckers ex) (st, [])
                     | _ \<Rightarrow> (st\<lparr>prevHandPos := Map.empty\<rparr>, []))
              in Inr (st1\<lparr>ripples := advanceRipples (ripples st1)\<rparr>, evs))))"

text \<open>
  A sequence of calls: a call that throws leaves the state as it found it, and the next
  call is made all the same.
\<close>

definition frameStep :: "CanvasState \<Rightarrow> FrameEnv \<times> HandResults \<Rightarrow> CanvasState" where
  "frameStep st f =
     (case onResults (fst f) (snd f) st of Inl e \<Rightarrow> st | Inr (st', evs) \<Rightarrow> st')"

definition runFrames :: "CanvasState \<Rightarrow> (FrameEnv \<times> HandResults) list \<Rightarrow> CanvasState" where
  "runFrames st fs = foldl frameStep st fs"

definition numHands :: "HandResults \<Rightarrow> nat" where
  "numHands results = (case multiHandLandmarks results of None \<Rightarrow> 0 | Some hands \<Rightarrow> length hands)"

text \<open>The state before the first call.\<close>

definition initialCanvasState :: CanvasState where
  "initialCanvasState = \<lparr>prevHandPos = Map.empty, ripples = [], audioService = newAudioService\<rparr>"

text \<open>
  The pluck made for plucker \<open>i\<close> by one pass of the loop body, given the position stored
  for it: none without a stored position or without a crossing.
\<close>

definition crossing :: "FrameEnv \<Rightarrow> Point \<Rightarrow> Point \<Rightarrow> Point option \<Rightarrow> nat \<Rightarrow> Point \<Rightarrow> PluckEvent list" where
  "crossing env l r prev i plucker =
     (case prev of
        None \<Rightarrow> []
      | Some p \<Rightarrow>
          if getLineIntersection p plucker l r
          then [\<lparr>slot = i, point = plucker, normalizedPosition = fdiv (px plucker) (width env)\<rparr>]
          else [])"

text \<open>
  The ripple list over a frame: the frame's \<^verbatim>\<open>spawnRipple\<close> calls (each with its fresh id and
  position), then step 4. \<open>liveAfter\<close> is the list after each frame of a sequence has done so.
\<close>

definition spawnAll :: "Ripple list \<Rightarrow> (real \<times> real \<times> real) list \<Rightarrow> Ripple list" where
  "spawnAll rs calls = foldl (\<lambda>rs (fresh, x, y). spawnRipple fresh x y rs) rs calls"

definition spawnCalls :: "FrameEnv \<Rightarrow> PluckEvent list \<Rightarrow> (real \<times> real \<times> real) list" where
  "spawnCalls env evs = map (\<lambda>e. (freshId env (slot e), px (point e), py (point e))) evs"

definition frameRipples :: "Ripple list \<Rightarrow> (real \<times> real \<times> real) list \<Rightarrow> Ripple list" where
  "frameRipples rs calls = advanceRipples (spawnAll rs calls)"

definition liveAfter :: "Ripple list \<Rightarrow> (real \<times> real \<times> real) list list \<Rightarrow> Ripple list" where
  "liveAfter rs frames = foldl frameRipples rs frames"


text \<open>The live ripples that carry the id \<open>i\<close>.\<close>

definition withId :: "real \<Rightarrow> Ripple list \<Rightarrow> Ripple list" where
  "withId i rs = filter (\<lambda>r. rid r = i) rs"

text \<open>
  Example data: a hand of 21 landmarks with given index tip (8) and middle tip (12), a
  surface of 100 by 80, a frame with two hands (anchors at \<open>(0, 0)\<close> and \<open>(100, 0)\<close>,
  pluckers at \<open>(50, 10)\<close> and \<open>(75, -15)\<close>), a frame with the first hand only, a state in
  which the pluckers were last seen at \<open>(50, -10)\<close> and \<open>(75, -20)\<close>, and the same state with
  the audio service initialized.
\<close>

definition handWith :: "HandLandmark \<Rightarrow> HandLandmark \<Rightarrow> HandLandmark list" where
  "handWith indexTip middleTip =
     replicate 8 \<lparr>lx = 0, ly = 0, lz = 0\<rparr> @ [indexTip] @
     replicate 3 \<lparr>lx = 0, ly = 0, lz = 0\<rparr> @ [middleTip] @
     replicate 8 \<lparr>lx = 0, ly = 0, lz = 0\<rparr>"

definition exampleEnv :: FrameEnv where
  "exampleEnv = \<lparr>surface_ready = True, width = 100, height = 80, freshId = (\<lambda>i. 1000 + real i)\<rparr>"

definition twoHands :: HandResults where
  "twoHands = \<lparr>multiHandLandmarks = Some
     [handWith \<lparr>lx = 0, ly = 0, lz = 0\<rparr> \<lparr>lx = 1 / 2, ly = 1 / 8, lz = 0\<rparr>,
      handWith \<lparr>lx = 1, ly = 0, lz = 0\<rparr> \<lparr>lx = 3 / 4, ly = - 3 / 16, lz = 0\<rparr>]\<rparr>"

definition oneHand :: HandResults where
  "oneHand = \<lparr>multiHandLandmarks = Some
     [handWith \<lparr>lx = 0, ly = 0, lz = 0\<rparr> \<lparr>lx = 1 / 2, ly = 1 / 8, lz = 0\<rparr>]\<rparr>"

definition trackedState :: CanvasState where
  "trackedState = initialCanvasState\<lparr>prevHandPos :=
     [0 \<mapsto> \<lparr>px = 50, py = - 10\<rparr>, 1 \<mapsto> \<lparr>px = 75, py = - 20\<rparr>]\<rparr>"

definition exampleAudioEnv :: AudioEnv where
  "exampleAudioEnv =
     \<lparr>audio_supported = True, deviceSampleRate = 48000, startsSuspended = False,
      noise = (\<lambda>n. 1 / 2)\<rparr>"

definition exampleService :: AudioService where
  "exampleService =
     (case initialize exampleAudioEnv newAudioService of Inl e \<Rightarrow> newAudioService | Inr s \<Rightarrow> s)"

definition playingState :: CanvasState where
  "playingState = trackedState\<lparr>audioService := exampleService\<rparr>"

section \<open>Rounding to the nearest double\<close>

lemma ulp_pos: "0 < ulp v"
  by (simp add: ulp_def)

lemma binade_ge: "- 1022 \<le> binade v"
  by (simp add: binade_def)

lemma binade_upper:
  assumes "v \<noteq> 0"
  shows "\<bar>v\<bar> < 2 powi (binade v + 1)"
proof -
  let ?e = "\<lfloor>log 2 \<bar>v\<bar>\<rfloor>"
  have "0 < \<bar>v\<bar>" using assms by simp
  from floor_log_eq_powr_iff [OF this, of 2 ?e]
  have "\<bar>v\<bar> < 2 powr (real_of_int ?e + 1)" by simp
  also have "\<dots> = 2 powi (?e + 1)"
    using powr_real_of_int' [of 2 "?e + 1"] by simp
  also have "\<dots> \<le> 2 powi (binade v + 1)"
    by (rule power_int_increasing) (simp_all add: binade_def)
  finally show ?thesis .
qed

lemma binade_lower:
  assumes "v \<noteq> 0" and "binade v \<noteq> - 1022"
  shows "2 powi binade v \<le> \<bar>v\<bar>"
proof -
  let ?e = "\<lfloor>log 2 \<bar>v\<bar>\<rfloor>"
  have e: "binade v = ?e" using assms(2) by (auto simp: binade_def max_def split: if_splits)
  have "0 < \<bar>v\<bar>" using assms by simp
  from floor_log_eq_powr_iff [OF this, of 2 ?e]
  have "2 powr real_of_int ?e \<le> \<bar>v\<bar>" by simp
  then show ?thesis
    using powr_real_of_int' [of 2 ?e] e by simp
qed

lemma binade_eq:
  assumes "2 powi e \<le> \<bar>v\<bar>" and "\<bar>v\<bar> < 2 powi (e + 1)" and "- 1022 \<le> e"
  shows "binade v = e"
proof -
  have pos: "0 < \<bar>v\<bar>"
    using assms(1) zero_less_power_int [of "2::real" e] by linarith
  have "2 powr real_of_int e \<le> \<bar>v\<bar> \<and> \<bar>v\<bar> < 2 powr (real_of_int e + 1)"
    using assms(1,2) powr_real_of_int' [of 2 e] powr_real_of_int' [of 2 "e + 1"] by simp
  with floor_log_eq_powr_iff [OF pos, of 2 e] have "\<lfloor>log 2 \<bar>v\<bar>\<rfloor> = e" by simp
  with assms(3) show ?thesis by (simp add: binade_def)
qed

lemma binade_tiny:
  assumes "v \<noteq> 0" and "\<bar>v\<bar> < 2 powi (- 1022)"
  shows "binade v = - 1022"
proof (rule ccontr)
  assume n: "binade v \<noteq> - 1022"
  with binade_ge [of v] have "- 1022 \<le> binade v" by simp
  then have "(2::real) powi (- 1022) \<le> 2 powi binade v"
    by (intro power_int_increasing) simp_all
  with binade_lower [OF assms(1) n] assms(2) show False by linarith
qed

lemma roundHalfEven_near: "\<bar>of_int (roundHalfEven q) - q\<bar> \<le> 1 / 2"
  unfolding roundHalfEven_def Let_def by (auto simp: abs_if; linarith)

lemma roundHalfEven_nearest: "\<bar>of_int (roundHalfEven q) - q\<bar> \<le> \<bar>of_int j - q\<bar>"
proof (cases "j = roundHalfEven q")
  case True
  then show ?thesis by simp
next
  case False
  have "roundHalfEven q = \<lfloor>q\<rfloor> \<or> roundHalfEven q = \<lfloor>q\<rfloor> + 1"
    by (auto simp: roundHalfEven_def Let_def)
  then consider "j \<le> \<lfloor>q\<rfloor> - 1" | "j \<ge> \<lfloor>q\<rfloor> + 2" | "j = \<lfloor>q\<rfloor>" | "j = \<lfloor>q\<rfloor> + 1"
    by linarith
  then show ?thesis
  proof cases
    case 1
    then have "real_of_int j \<le> of_int \<lfloor>q\<rfloor> - 1" by linarith
    with roundHalfEven_near [of q] show ?thesis by linarith
  next
    case 2
    then have "real_of_int j \<ge> of_int \<lfloor>q\<rfloor> + 2" by linarith
    with roundHalfEven_near [of q] show ?thesis by linarith
  next
    case 3
    with False have r: "roundHalfEven q = \<lfloor>q\<rfloor> + 1"
      using \<open>roundHalfEven q = \<lfloor>q\<rfloor> \<or> roundHalfEven q = \<lfloor>q\<rfloor> + 1\<close> by simp
    then have "\<not> q - of_int \<lfloor>q\<rfloor> < 1 / 2"
      by (auto simp: roundHalfEven_def Let_def split: if_splits)
    with 3 r show ?thesis by simp
  next
    case 4
    with False have r: "roundHalfEven q = \<lfloor>q\<rfloor>"
      using \<open>roundHalfEven q = \<lfloor>q\<rfloor> \<or> roundHalfEven q = \<lfloor>q\<rfloor> + 1\<close> by simp
    then have "\<not> 1 / 2 < q - of_int \<lfloor>q\<rfloor>"
      by (auto simp: roundHalfEven_def Let_def split: if_splits)
    with 4 r show ?thesis by simp
  qed
qed

lemma roundHalfEven_of_int [simp]: "roundHalfEven (of_int n) = n"
  by (simp add: roundHalfEven_def)

lemma roundHalfEven_minus: "roundHalfEven (- q) = - roundHalfEven q"
proof (cases "q \<in> \<int>")
  case True
  then obtain n where "q = of_int n" by (auto elim: Ints_cases)
  then show ?thesis by (simp flip: of_int_minus)
next
  case False
  have fr: "of_int \<lfloor>q\<rfloor> < q" using False
    by (metis Ints_of_int of_int_floor_le order_less_le)
  have f: "\<lfloor>- q\<rfloor> = - \<lfloor>q\<rfloor> - 1"
    using fr by (intro floor_unique) (simp_all, linarith)
  show ?thesis
    unfolding roundHalfEven_def Let_def f
    using fr by (auto simp: algebra_simps)
qed

lemma ulp_minus [simp]: "ulp (- v) = ulp v"
  by (simp add: ulp_def binade_def)

lemma double_minus: "double (- v) = - double v"
  by (simp add: double_def roundHalfEven_minus)

lemma double_0 [simp]: "double 0 = 0"
  by (simp add: double_def)

lemma abs_scale:
  fixes a v u :: real
  assumes "0 < u"
  shows "\<bar>a - v / u\<bar> * u = \<bar>a * u - v\<bar>"
proof -
  have "\<bar>a - v / u\<bar> * u = \<bar>(a - v / u) * u\<bar>"
    using assms by (simp add: abs_mult)
  also have "(a - v / u) * u = a * u - v"
    using assms by (simp add: field_simps)
  finally show ?thesis .
qed

lemma double_nearest_multiple:
  "\<bar>double v - v\<bar> \<le> \<bar>of_int j * ulp v - v\<bar>"
proof (cases "v = 0")
  case True
  then show ?thesis by simp
next
  case False
  have u: "0 < ulp v" by (rule ulp_pos)
  have "\<bar>of_int (roundHalfEven (v / ulp v)) - v / ulp v\<bar> \<le> \<bar>of_int j - v / ulp v\<bar>"
    by (rule roundHalfEven_nearest)
  then have "\<bar>of_int (roundHalfEven (v / ulp v)) - v / ulp v\<bar> * ulp v
      \<le> \<bar>of_int j - v / ulp v\<bar> * ulp v"
    using u by (simp add: mult_right_mono)
  moreover have "\<bar>of_int (roundHalfEven (v / ulp v)) - v / ulp v\<bar> * ulp v =
      \<bar>of_int (roundHalfEven (v / ulp v)) * ulp v - v\<bar>"
    using u by (rule abs_scale)
  moreover have "\<bar>of_int j - v / ulp v\<bar> * ulp v = \<bar>of_int j * ulp v - v\<bar>"
    using u by (rule abs_scale)
  ultimately show ?thesis using False by (simp add: double_def)
qed

text \<open>A double at least as large as the binade's lower end is a multiple of the binade's ulp.\<close>

lemma isDouble_multiple:
  assumes "isDouble r" and "- 1022 \<le> e" and "2 powi e \<le> \<bar>r\<bar> \<or> e = - 1022"
  shows "\<exists>j. r = of_int j * 2 powi (e - 52)"
proof -
  from assms(1) obtain m k where r: "r = of_int m * 2 powi k" and m: "\<bar>m\<bar> < 2 ^ 53"
    and k: "- 1074 \<le> k" by (auto simp: isDouble_def)
  have "e - 52 \<le> k"
  proof (cases "e = - 1022")
    case True
    with k show ?thesis by simp
  next
    case False
    with assms(3) have "2 powi e \<le> \<bar>r\<bar>" by simp
    also have "\<bar>r\<bar> = of_int \<bar>m\<bar> * 2 powi k" by (simp add: r abs_mult)
    also have "\<dots> < 2 ^ 53 * 2 powi k"
    proof -
      have "real_of_int \<bar>m\<bar> < 2 ^ 53" using m by (metis of_int_less_numeral_power_cancel_iff)
      then show ?thesis by (simp add: mult_strict_right_mono)
    qed
    also have "\<dots> = 2 powi (53 + k)" by (simp add: power_int_add)
    finally have "(2::real) powi e < 2 powi (53 + k)" .
    then have "e < 53 + k"
      by (metis not_le one_le_numeral power_int_increasing linorder_not_less)
    then show ?thesis by simp
  qed
  then obtain d where d: "k = (e - 52) + int d" by (metis zle_iff_zadd)
  have "r = of_int (m * 2 ^ d) * 2 powi (e - 52)"
    by (simp add: r d power_int_add)
  then show ?thesis by blast
qed

lemma pow2_multiple_of_ulp: "(2::real) powi e = of_int (2 ^ 52) * 2 powi (e - 52)"
  using power_int_diff [of "2::real" e 52] by simp

lemma double_nearest:
  assumes "isDouble r"
  shows "\<bar>double v - v\<bar> \<le> \<bar>r - v\<bar>"
proof (cases "v = 0")
  case True
  then show ?thesis by simp
next
  case False
  let ?e = "binade v"
  show ?thesis
  proof (cases "2 powi ?e \<le> \<bar>r\<bar> \<or> ?e = - 1022")
    case True
    from isDouble_multiple [OF assms binade_ge True] obtain j
      where "r = of_int j * ulp v" by (auto simp: ulp_def)
    with double_nearest_multiple [of v j] show ?thesis by simp
  next
    case F: False
    then have rl: "\<bar>r\<bar> < 2 powi ?e" and ne: "?e \<noteq> - 1022" by auto
    from binade_lower [OF False ne] have vl: "2 powi ?e \<le> \<bar>v\<bar>" .
    define s where "s = (if 0 < v then 2 ^ 52 else - (2 ^ 52) :: int)"
    have "of_int s * ulp v = (if 0 < v then 2 powi ?e else - (2 powi ?e))"
      by (simp add: s_def ulp_def power_int_diff)
    then have "\<bar>of_int s * ulp v - v\<bar> = \<bar>v\<bar> - 2 powi ?e"
      using vl False by (auto simp: abs_if split: if_splits)
    also have "\<dots> \<le> \<bar>v\<bar> - \<bar>r\<bar>" using rl by simp
    also have "\<dots> \<le> \<bar>r - v\<bar>" by simp
    finally show ?thesis using double_nearest_multiple [of v s] by linarith
  qed
qed

lemma double_exact: "isDouble v \<Longrightarrow> double v = v"
  using double_nearest [of v v] by simp

lemma double_le: "isDouble r \<Longrightarrow> v \<le> r \<Longrightarrow> double v \<le> r"
  using double_nearest [of r v] by linarith

lemma double_ge: "isDouble r \<Longrightarrow> r \<le> v \<Longrightarrow> r \<le> double v"
  using double_nearest [of r v] by linarith

lemma isDoubleI: "\<bar>m\<bar> < 2 ^ 53 \<Longrightarrow> - 1074 \<le> k \<Longrightarrow> isDouble (of_int m * 2 powi k)"
  by (auto simp: isDouble_def)

lemma isDouble_of_int:
  assumes "\<bar>n\<bar> \<le> 2 ^ 53"
  shows "isDouble (of_int n)"
proof (cases "\<bar>n\<bar> < 2 ^ 53")
  case True
  from isDoubleI [OF True, of 0] show ?thesis by simp
next
  case False
  with assms have "n = 2 ^ 53 \<or> n = - (2 ^ 53)" by linarith
  then have "real_of_int n = of_int (n div 2) * 2 powi 1" by auto
  moreover have "\<bar>n div 2\<bar> < 2 ^ 53" using \<open>n = 2 ^ 53 \<or> n = - (2 ^ 53)\<close> by auto
  ultimately show ?thesis using isDoubleI [of "n div 2" 1] by simp
qed

lemma isDouble_Ints: "v \<in> \<int> \<Longrightarrow> \<bar>v\<bar> \<le> 2 ^ 53 \<Longrightarrow> isDouble v"
proof -
  assume "v \<in> \<int>" and b: "\<bar>v\<bar> \<le> 2 ^ 53"
  then obtain n where n: "v = of_int n" by (auto elim: Ints_cases)
  with b have "real_of_int \<bar>n\<bar> \<le> 2 ^ 53" by simp
  then have "\<bar>n\<bar> \<le> 2 ^ 53" by (metis of_int_le_numeral_power_cancel_iff)
  with n show ?thesis by (simp add: isDouble_of_int)
qed

lemma double_Ints: "v \<in> \<int> \<Longrightarrow> \<bar>v\<bar> \<le> 2 ^ 53 \<Longrightarrow> double v = v"
  by (simp add: double_exact isDouble_Ints)

lemma isDouble_double: "isDouble (double v)"
proof (cases "v = 0")
  case True
  have "isDouble (of_int 0)" by (rule isDouble_of_int) simp
  with True show ?thesis by simp
next
  case False
  let ?e = "binade v" and ?n = "roundHalfEven (v / ulp v)"
  have u: "0 < ulp v" by (rule ulp_pos)
  have "\<bar>v / ulp v\<bar> = \<bar>v\<bar> / ulp v" using u by simp
  also have "\<dots> < 2 powi (?e + 1) / ulp v"
    using binade_upper [OF False] u by (simp add: divide_strict_right_mono)
  also have "\<dots> = 2 ^ 53"
    using power_int_diff [of "2::real" "?e + 1" "?e - 52"] by (simp add: ulp_def)
  finally have q: "\<bar>v / ulp v\<bar> < 2 ^ 53" .
  have "\<bar>real_of_int ?n\<bar> < 2 ^ 53 + 1"
    using roundHalfEven_near [of "v / ulp v"] q by linarith
  then have "real_of_int \<bar>?n\<bar> < real_of_int (2 ^ 53 + 1)" by simp
  then have nb: "\<bar>?n\<bar> \<le> 2 ^ 53" by (simp only: of_int_less_iff)
  have d: "double v = of_int ?n * 2 powi (?e - 52)"
    using False by (simp add: double_def ulp_def)
  show ?thesis
  proof (cases "\<bar>?n\<bar> < 2 ^ 53")
    case True
    from isDoubleI [OF True, of "?e - 52"] binade_ge [of v] d show ?thesis by simp
  next
    case F: False
    with nb have "?n = 2 ^ 53 \<or> ?n = - (2 ^ 53)" by linarith
    then have "real_of_int ?n * 2 powi (?e - 52) = of_int (?n div 2) * 2 powi (?e - 51)"
      and "\<bar>?n div 2\<bar> < 2 ^ 53"
      using power_int_add [of "2::real" "?e - 52" 1] by auto
    with isDoubleI [of "?n div 2" "?e - 51"] binade_ge [of v] d show ?thesis by simp
  qed
qed

text \<open>Evaluation with the binade given.\<close>

lemma double_eval:
  assumes "2 powi e \<le> \<bar>v\<bar>" and "\<bar>v\<bar> < 2 powi (e + 1)" and "- 1022 \<le> e"
  shows "double v = of_int (roundHalfEven (v / 2 powi (e - 52))) * 2 powi (e - 52)"
proof -
  have "0 < (2::real) powi e" by simp
  with assms(1) have "0 < \<bar>v\<bar>" by linarith
  then have "v \<noteq> 0" by simp
  with binade_eq [OF assms] show ?thesis by (simp add: double_def ulp_def)
qed

lemma double_numeral [simp]: "numeral w \<le> (2 ^ 53 :: real) \<Longrightarrow> double (numeral w) = numeral w"
  using double_Ints [of "numeral w"] by simp

lemma double_neg_numeral [simp]:
  "numeral w \<le> (2 ^ 53 :: real) \<Longrightarrow> double (- numeral w) = - numeral w"
  using double_Ints [of "- numeral w"] by simp

lemma double_1 [simp]: "double 1 = 1"
  using double_Ints [of 1] by simp


lemma double_idem [simp]: "double (double v) = double v"
  by (simp add: double_exact isDouble_double)

lemma isDouble_scaled:
  "\<bar>m\<bar> < 2 ^ 53 \<Longrightarrow> - 1074 \<le> k \<Longrightarrow> isDouble (of_int m * 2 powi k)"
  by (rule isDoubleI)

lemma double_half [simp]: "double (1 / 2) = 1 / 2"
proof -
  have "isDouble (of_int 1 * 2 powi (- 1))" by (rule isDoubleI) simp_all
  then show ?thesis using double_exact [of "1 / 2"] by (simp add: power_int_minus)
qed

text \<open>Integers: sums, differences and products within \<open>2 ^ 53\<close> are exact.\<close>

lemma fsub_Ints: "a \<in> \<int> \<Longrightarrow> b \<in> \<int> \<Longrightarrow> \<bar>a - b\<bar> \<le> 2 ^ 53 \<Longrightarrow> fsub a b = a - b"
  by (simp add: fsub_def double_Ints)

lemma fadd_Ints: "a \<in> \<int> \<Longrightarrow> b \<in> \<int> \<Longrightarrow> \<bar>a + b\<bar> \<le> 2 ^ 53 \<Longrightarrow> fadd a b = a + b"
  by (simp add: fadd_def double_Ints)

lemma fmul_Ints: "a \<in> \<int> \<Longrightarrow> b \<in> \<int> \<Longrightarrow> \<bar>a * b\<bar> \<le> 2 ^ 53 \<Longrightarrow> fmul a b = a * b"
  by (simp add: fmul_def double_Ints)

lemma fmul_commute: "fmul a b = fmul b a"
  by (simp add: fmul_def mult.commute)

lemma fsub_swap: "fsub b a = - fsub a b"
  using double_minus [of "a - b"] by (simp add: fsub_def)

lemma fmul_minus_left: "fmul (- a) b = - fmul a b"
  using double_minus [of "a * b"] by (simp add: fmul_def)

lemma fmul_minus_right: "fmul a (- b) = - fmul a b"
  using double_minus [of "a * b"] by (simp add: fmul_def)

lemma fsub_self [simp]: "fsub a a = 0"
  by (simp add: fsub_def)

lemma fmul_0_left [simp]: "fmul 0 b = 0"
  by (simp add: fmul_def)

lemma fmul_0_right [simp]: "fmul a 0 = 0"
  by (simp add: fmul_def)

text \<open>A quotient of integers keeps its side of 0 and of 1 when it is rounded.\<close>

lemma quotient_gap:
  fixes n d :: int
  assumes "d \<noteq> 0" and "\<bar>d\<bar> \<le> 2 ^ 51"
  shows "0 < real_of_int n / of_int d \<Longrightarrow> 2 powi (- 51) \<le> real_of_int n / of_int d"
    and "real_of_int n / of_int d < 1 \<Longrightarrow> real_of_int n / of_int d \<le> 1 - 2 powi (- 51)"
proof -
  have dpos: "0 < real_of_int \<bar>d\<bar>" using assms(1) by simp
  have dle: "real_of_int \<bar>d\<bar> \<le> 2 ^ 51" using assms(2) by (metis of_int_le_numeral_power_cancel_iff)
  have inv: "(2::real) powi (- 51) \<le> 1 / real_of_int \<bar>d\<bar>"
  proof -
    have "1 / (2 ^ 51 :: real) \<le> 1 / real_of_int \<bar>d\<bar>"
      using dpos dle by (intro divide_left_mono) simp_all
    then show ?thesis by (simp add: power_int_minus inverse_eq_divide)
  qed
  define s :: int where "s = (if 0 < d then n else - n)"
  have q: "real_of_int n / of_int d = of_int s / of_int \<bar>d\<bar>"
    using assms(1) by (auto simp: s_def abs_if)
  {
    assume "0 < real_of_int n / of_int d"
    with q dpos have "0 < real_of_int s" by (simp add: zero_less_divide_iff)
    then have "1 \<le> real_of_int s" by (simp add: int_one_le_iff_zero_less)
    then have "1 / real_of_int \<bar>d\<bar> \<le> of_int s / of_int \<bar>d\<bar>"
      using dpos by (intro divide_right_mono) simp_all
    with inv q show "2 powi (- 51) \<le> real_of_int n / of_int d" by linarith
  }
  {
    assume "real_of_int n / of_int d < 1"
    with q dpos have "real_of_int s < of_int \<bar>d\<bar>" by (simp add: divide_less_eq)
    then have "s < \<bar>d\<bar>" by (simp only: of_int_less_iff)
    then have "real_of_int s \<le> of_int \<bar>d\<bar> - 1" by linarith
    then have "of_int s / of_int \<bar>d\<bar> \<le> (of_int \<bar>d\<bar> - 1) / real_of_int \<bar>d\<bar>"
      using dpos by (intro divide_right_mono) simp_all
    also have "\<dots> = 1 - 1 / real_of_int \<bar>d\<bar>"
      using dpos by (simp add: diff_divide_distrib)
    finally show "real_of_int n / of_int d \<le> 1 - 2 powi (- 51)" using inv q by linarith
  }
qed

lemma isDouble_pow2: "- 1074 \<le> k \<Longrightarrow> isDouble (2 powi k)"
  using isDoubleI [of 1 k] by simp

lemma isDouble_below_1: "isDouble (1 - 2 powi (- 51))"
proof -
  have "isDouble (of_int (2 ^ 51 - 1) * 2 powi (- 51))" by (rule isDoubleI) simp_all
  moreover have "real_of_int (2 ^ 51 - 1) * 2 powi (- 51) = 1 - 2 powi (- 51)"
    by (simp add: power_int_minus field_simps)
  ultimately show ?thesis by simp
qed

lemma double_quotient_cmp:
  fixes n d :: int
  assumes "d \<noteq> 0" and "\<bar>d\<bar> \<le> 2 ^ 51"
  shows "0 < double (of_int n / of_int d) \<longleftrightarrow> 0 < real_of_int n / of_int d"
    and "double (of_int n / of_int d) < 1 \<longleftrightarrow> real_of_int n / of_int d < 1"
proof -
  let ?q = "real_of_int n / of_int d"
  have z: "isDouble 0" using isDouble_of_int [of 0] by simp
  have o: "isDouble 1" using isDouble_of_int [of 1] by simp
  show "0 < double ?q \<longleftrightarrow> 0 < ?q"
  proof
    assume "0 < double ?q"
    with double_le [OF z, of ?q] show "0 < ?q" by (cases "0 < ?q") auto
  next
    assume "0 < ?q"
    from quotient_gap(1) [OF assms this] double_ge [OF isDouble_pow2 [of "- 51"], of ?q]
    have "2 powi (- 51) \<le> double ?q" by simp
    moreover have "0 < (2::real) powi (- 51)" by simp
    ultimately show "0 < double ?q" by linarith
  qed
  show "double ?q < 1 \<longleftrightarrow> ?q < 1"
  proof
    assume "double ?q < 1"
    with double_ge [OF o, of ?q] show "?q < 1" by (cases "?q < 1") auto
  next
    assume "?q < 1"
    from quotient_gap(2) [OF assms this] double_le [OF isDouble_below_1, of ?q]
    have "double ?q \<le> 1 - 2 powi (- 51)" by simp
    moreover have "0 < (2::real) powi (- 51)" by simp
    ultimately show "double ?q < 1" by linarith
  qed
qed

section \<open>Properties of the geometry kernel\<close>

subsection \<open>The formulation in exact arithmetic\<close>

lemma meets_fractions:
  assumes "detExact p1 p2 p3 p4 \<noteq> 0"
  shows "meets p1 p2 p3 p4 (lambdaExact p1 p2 p3 p4) (1 - gammaExact p1 p2 p3 p4)"
  using assms
  unfolding meets_def lambdaExact_def gammaExact_def detExact_def
  by (auto simp: field_simps)

text \<open>
  With a nonzero determinant the two lines meet in one point only, so \<open>lambda\<close> is the fraction
  of the way from \<open>p1\<close> to \<open>p2\<close> at which they meet, and \<open>gamma\<close> the fraction of the way from
  \<open>p4\<close> back to \<open>p3\<close>.
\<close>

lemma meets_unique:
  assumes d: "detExact p1 p2 p3 p4 \<noteq> 0" and m: "meets p1 p2 p3 p4 t u"
  shows "t = lambdaExact p1 p2 p3 p4 \<and> u = 1 - gammaExact p1 p2 p3 p4"
proof -
  have t: "t * detExact p1 p2 p3 p4 =
      (py p4 - py p3) * (px p4 - px p1) + (px p3 - px p4) * (py p4 - py p1)"
    using m unfolding meets_def detExact_def by algebra
  have u: "(1 - u) * detExact p1 p2 p3 p4 =
      (py p1 - py p2) * (px p4 - px p1) + (px p2 - px p1) * (py p4 - py p1)"
    using m unfolding meets_def detExact_def by algebra
  from t d have "t = lambdaExact p1 p2 p3 p4"
    unfolding lambdaExact_def by (simp add: nonzero_eq_divide_eq)
  moreover from u d have "1 - u = gammaExact p1 p2 p3 p4"
    unfolding gammaExact_def by (simp add: nonzero_eq_divide_eq)
  ultimately show ?thesis by simp
qed

lemma intersectExact_iff_meets:
  "intersectExact p1 p2 p3 p4 \<longleftrightarrow>
     detExact p1 p2 p3 p4 \<noteq> 0 \<and>
     (\<exists>t u. 0 < t \<and> t < 1 \<and> 0 < u \<and> u < 1 \<and> meets p1 p2 p3 p4 t u)"
proof (cases "detExact p1 p2 p3 p4 = 0")
  case True
  then show ?thesis by (simp add: intersectExact_def)
next
  case False
  show ?thesis
  proof
    assume g: "intersectExact p1 p2 p3 p4"
    then have "0 < lambdaExact p1 p2 p3 p4" "lambdaExact p1 p2 p3 p4 < 1"
      "0 < 1 - gammaExact p1 p2 p3 p4" "1 - gammaExact p1 p2 p3 p4 < 1"
      using False by (simp_all add: intersectExact_def)
    with meets_fractions [OF False] False
    show "detExact p1 p2 p3 p4 \<noteq> 0 \<and>
      (\<exists>t u. 0 < t \<and> t < 1 \<and> 0 < u \<and> u < 1 \<and> meets p1 p2 p3 p4 t u)"
      by blast
  next
    assume "detExact p1 p2 p3 p4 \<noteq> 0 \<and>
      (\<exists>t u. 0 < t \<and> t < 1 \<and> 0 < u \<and> u < 1 \<and> meets p1 p2 p3 p4 t u)"
    then obtain t u where tu: "0 < t" "t < 1" "0 < u" "u < 1" "meets p1 p2 p3 p4 t u"
      by blast
    from meets_unique [OF False tu(5)] tu(1-4) False
    show "intersectExact p1 p2 p3 p4"
      by (simp add: intersectExact_def)
  qed
qed

lemma detExact_swap: "detExact p3 p4 p1 p2 = - detExact p1 p2 p3 p4"
  by (simp add: detExact_def algebra_simps)

lemma meets_swap: "meets p3 p4 p1 p2 u t \<longleftrightarrow> meets p1 p2 p3 p4 t u"
  by (auto simp: meets_def)

lemma touching_no_intersectExact:
  assumes "meets p1 p2 p3 p4 t u" and "t = 0 \<or> t = 1 \<or> u = 0 \<or> u = 1"
  shows "\<not> intersectExact p1 p2 p3 p4"
proof (cases "detExact p1 p2 p3 p4 = 0")
  case True
  then show ?thesis by (simp add: intersectExact_def)
next
  case False
  from meets_unique [OF False assms(1)] assms(2) False
  show ?thesis by (auto simp: intersectExact_def)
qed


lemma intersectExact_symmetric: "intersectExact p1 p2 p3 p4 = intersectExact p3 p4 p1 p2"
proof -
  have "(\<exists>t u. 0 < t \<and> t < 1 \<and> 0 < u \<and> u < 1 \<and> meets p3 p4 p1 p2 t u) \<longleftrightarrow>
        (\<exists>t u. 0 < t \<and> t < 1 \<and> 0 < u \<and> u < 1 \<and> meets p1 p2 p3 p4 t u)"
    using meets_swap by blast
  then show ?thesis
    unfolding intersectExact_iff_meets [of p1 p2 p3 p4]
      intersectExact_iff_meets [of p3 p4 p1 p2] detExact_swap [of p1 p2 p3 p4]
    by simp
qed

subsection \<open>The computation in doubles\<close>

lemma det_swap: "det p3 p4 p1 p2 = - det p1 p2 p3 p4"
  unfolding det_def by (simp add: fsub_swap [symmetric] fmul_commute)

lemma det_degenerate:
  assumes "p1 = p2 \<or> p3 = p4 \<or> (p1 = p3 \<and> p2 = p4) \<or> (p1 = p4 \<and> p2 = p3)"
  shows "det p1 p2 p3 p4 = 0"
proof -
  have "det p1 p2 p2 p1 = 0"
    unfolding det_def
    using fsub_swap [of "px p1" "px p2"] fsub_swap [of "py p1" "py p2"]
    by (simp add: fmul_minus_left fmul_minus_right fmul_commute)
  moreover have "det p1 p2 p1 p2 = 0"
    unfolding det_def by (simp add: fmul_commute)
  moreover have "det p1 p1 p3 p4 = 0" "det p1 p2 p3 p3 = 0"
    unfolding det_def by simp_all
  ultimately show ?thesis using assms by auto
qed

text \<open>On the integer grid the determinant and the two numerators are computed exactly.\<close>

lemma grid_sub:
  assumes "x \<in> \<int>" "y \<in> \<int>" "\<bar>x\<bar> \<le> 2 ^ 24" "\<bar>y\<bar> \<le> 2 ^ 24"
  shows "fsub x y = x - y \<and> x - y \<in> \<int> \<and> \<bar>x - y\<bar> \<le> 2 ^ 25"
proof -
  have "\<bar>x - y\<bar> \<le> 2 ^ 25" using assms(3,4) by simp
  moreover from this have "\<bar>x - y\<bar> \<le> 2 ^ 53" by simp
  ultimately show ?thesis using assms(1,2) by (simp add: fsub_Ints)
qed

lemma grid_mul:
  assumes "u \<in> \<int>" "v \<in> \<int>" "\<bar>u\<bar> \<le> 2 ^ 25" "\<bar>v\<bar> \<le> 2 ^ 25"
  shows "fmul u v = u * v \<and> u * v \<in> \<int> \<and> \<bar>u * v\<bar> \<le> 2 ^ 50"
proof -
  have "\<bar>u\<bar> * \<bar>v\<bar> \<le> 2 ^ 25 * 2 ^ 25"
    using assms(3,4) by (intro mult_mono) simp_all
  then have b: "\<bar>u * v\<bar> \<le> 2 ^ 50" by (simp add: abs_mult)
  then have "\<bar>u * v\<bar> \<le> 2 ^ 53" by simp
  with b show ?thesis using assms(1,2) by (simp add: fmul_Ints)
qed

lemma grid_sub2:
  assumes "s \<in> \<int>" "t \<in> \<int>" "\<bar>s\<bar> \<le> 2 ^ 50" "\<bar>t\<bar> \<le> 2 ^ 50"
  shows "fsub s t = s - t \<and> s - t \<in> \<int> \<and> \<bar>s - t\<bar> \<le> 2 ^ 51"
proof -
  have "\<bar>s - t\<bar> \<le> 2 ^ 51" using assms(3,4) by simp
  moreover from this have "\<bar>s - t\<bar> \<le> 2 ^ 53" by simp
  ultimately show ?thesis using assms(1,2) by (simp add: fsub_Ints)
qed

lemma grid_add2:
  assumes "s \<in> \<int>" "t \<in> \<int>" "\<bar>s\<bar> \<le> 2 ^ 50" "\<bar>t\<bar> \<le> 2 ^ 50"
  shows "fadd s t = s + t \<and> s + t \<in> \<int> \<and> \<bar>s + t\<bar> \<le> 2 ^ 51"
proof -
  have "\<bar>s + t\<bar> \<le> 2 ^ 51" using assms(3,4) by simp
  moreover from this have "\<bar>s + t\<bar> \<le> 2 ^ 53" by simp
  ultimately show ?thesis using assms(1,2) by (simp add: fadd_Ints)
qed

lemma grid_term:
  assumes "a \<in> \<int>" "b \<in> \<int>" "c \<in> \<int>" "d \<in> \<int>"
    and "\<bar>a\<bar> \<le> 2 ^ 24" "\<bar>b\<bar> \<le> 2 ^ 24" "\<bar>c\<bar> \<le> 2 ^ 24" "\<bar>d\<bar> \<le> 2 ^ 24"
  shows "fmul (fsub a b) (fsub c d) = (a - b) * (c - d) \<and> (a - b) * (c - d) \<in> \<int> \<and>
    \<bar>(a - b) * (c - d)\<bar> \<le> 2 ^ 50"
  using grid_sub [OF assms(1,2,5,6)] grid_sub [OF assms(3,4,7,8)]
    grid_mul [of "a - b" "c - d"] by simp

lemma grid_det:
  assumes "gridPoint p1" "gridPoint p2" "gridPoint p3" "gridPoint p4"
  shows "det p1 p2 p3 p4 = detExact p1 p2 p3 p4 \<and> detExact p1 p2 p3 p4 \<in> \<int> \<and>
    \<bar>detExact p1 p2 p3 p4\<bar> \<le> 2 ^ 51"
proof -
  have 1: "fmul (fsub (px p2) (px p1)) (fsub (py p4) (py p3)) =
        (px p2 - px p1) * (py p4 - py p3) \<and> (px p2 - px p1) * (py p4 - py p3) \<in> \<int> \<and>
        \<bar>(px p2 - px p1) * (py p4 - py p3)\<bar> \<le> 2 ^ 50"
    using assms by (intro grid_term) (simp_all add: gridPoint_def)
  have 2: "fmul (fsub (px p4) (px p3)) (fsub (py p2) (py p1)) =
        (px p4 - px p3) * (py p2 - py p1) \<and> (px p4 - px p3) * (py p2 - py p1) \<in> \<int> \<and>
        \<bar>(px p4 - px p3) * (py p2 - py p1)\<bar> \<le> 2 ^ 50"
    using assms by (intro grid_term) (simp_all add: gridPoint_def)
  from 1 2 grid_sub2 [of "(px p2 - px p1) * (py p4 - py p3)" "(px p4 - px p3) * (py p2 - py p1)"]
  show ?thesis unfolding det_def detExact_def by simp
qed

lemma grid_lambda:
  assumes "gridPoint p1" "gridPoint p2" "gridPoint p3" "gridPoint p4"
  shows "\<exists>n. lambda p1 p2 p3 p4 = double (of_int n / detExact p1 p2 p3 p4) \<and>
    lambdaExact p1 p2 p3 p4 = of_int n / detExact p1 p2 p3 p4"
proof -
  have 1: "fmul (fsub (py p4) (py p3)) (fsub (px p4) (px p1)) =
        (py p4 - py p3) * (px p4 - px p1) \<and> (py p4 - py p3) * (px p4 - px p1) \<in> \<int> \<and>
        \<bar>(py p4 - py p3) * (px p4 - px p1)\<bar> \<le> 2 ^ 50"
    using assms by (intro grid_term) (simp_all add: gridPoint_def)
  have 2: "fmul (fsub (px p3) (px p4)) (fsub (py p4) (py p1)) =
        (px p3 - px p4) * (py p4 - py p1) \<and> (px p3 - px p4) * (py p4 - py p1) \<in> \<int> \<and>
        \<bar>(px p3 - px p4) * (py p4 - py p1)\<bar> \<le> 2 ^ 50"
    using assms by (intro grid_term) (simp_all add: gridPoint_def)
  from 1 2 grid_add2 [of "(py p4 - py p3) * (px p4 - px p1)" "(px p3 - px p4) * (py p4 - py p1)"]
  have s: "fadd (fmul (fsub (py p4) (py p3)) (fsub (px p4) (px p1)))
             (fmul (fsub (px p3) (px p4)) (fsub (py p4) (py p1))) =
           (py p4 - py p3) * (px p4 - px p1) + (px p3 - px p4) * (py p4 - py p1)"
    and i: "(py p4 - py p3) * (px p4 - px p1) + (px p3 - px p4) * (py p4 - py p1) \<in> \<int>"
    by simp_all
  from i obtain n where n: "(py p4 - py p3) * (px p4 - px p1) + (px p3 - px p4) * (py p4 - py p1)
      = of_int n" by (auto elim: Ints_cases)
  show ?thesis
    using grid_det [OF assms] s n
    by (intro exI [of _ n]) (simp add: lambda_def lambdaExact_def fdiv_def)
qed

lemma grid_gamma:
  assumes "gridPoint p1" "gridPoint p2" "gridPoint p3" "gridPoint p4"
  shows "\<exists>n. gamma p1 p2 p3 p4 = double (of_int n / detExact p1 p2 p3 p4) \<and>
    gammaExact p1 p2 p3 p4 = of_int n / detExact p1 p2 p3 p4"
proof -
  have 1: "fmul (fsub (py p1) (py p2)) (fsub (px p4) (px p1)) =
        (py p1 - py p2) * (px p4 - px p1) \<and> (py p1 - py p2) * (px p4 - px p1) \<in> \<int> \<and>
        \<bar>(py p1 - py p2) * (px p4 - px p1)\<bar> \<le> 2 ^ 50"
    using assms by (intro grid_term) (simp_all add: gridPoint_def)
  have 2: "fmul (fsub (px p2) (px p1)) (fsub (py p4) (py p1)) =
        (px p2 - px p1) * (py p4 - py p1) \<and> (px p2 - px p1) * (py p4 - py p1) \<in> \<int> \<and>
        \<bar>(px p2 - px p1) * (py p4 - py p1)\<bar> \<le> 2 ^ 50"
    using assms by (intro grid_term) (simp_all add: gridPoint_def)
  from 1 2 grid_add2 [of "(py p1 - py p2) * (px p4 - px p1)" "(px p2 - px p1) * (py p4 - py p1)"]
  have s: "fadd (fmul (fsub (py p1) (py p2)) (fsub (px p4) (px p1)))
             (fmul (fsub (px p2) (px p1)) (fsub (py p4) (py p1))) =
           (py p1 - py p2) * (px p4 - px p1) + (px p2 - px p1) * (py p4 - py p1)"
    and i: "(py p1 - py p2) * (px p4 - px p1) + (px p2 - px p1) * (py p4 - py p1) \<in> \<int>"
    by simp_all
  from i obtain n where n: "(py p1 - py p2) * (px p4 - px p1) + (px p2 - px p1) * (py p4 - py p1)
      = of_int n" by (auto elim: Ints_cases)
  show ?thesis
    using grid_det [OF assms] s n
    by (intro exI [of _ n]) (simp add: gamma_def gammaExact_def fdiv_def)
qed

lemma grid_exact:
  assumes "gridPoint p1" "gridPoint p2" "gridPoint p3" "gridPoint p4"
  shows "getLineIntersection p1 p2 p3 p4 = intersectExact p1 p2 p3 p4"
proof (cases "detExact p1 p2 p3 p4 = 0")
  case True
  with grid_det [OF assms] show ?thesis
    by (simp add: getLineIntersection_def intersectExact_def)
next
  case False
  from grid_det [OF assms] obtain d where d: "detExact p1 p2 p3 p4 = of_int d"
    and db: "\<bar>detExact p1 p2 p3 p4\<bar> \<le> 2 ^ 51"
    and de: "det p1 p2 p3 p4 = detExact p1 p2 p3 p4"
    by (auto elim: Ints_cases)
  from d db have "real_of_int \<bar>d\<bar> \<le> 2 ^ 51" by simp
  then have d51: "\<bar>d\<bar> \<le> 2 ^ 51" by (metis of_int_le_numeral_power_cancel_iff)
  from False d have d0: "d \<noteq> 0" by auto
  from grid_lambda [OF assms] obtain n where
    l: "lambda p1 p2 p3 p4 = double (of_int n / of_int d)"
       "lambdaExact p1 p2 p3 p4 = of_int n / of_int d"
    using d by auto
  from grid_gamma [OF assms] obtain m where
    g: "gamma p1 p2 p3 p4 = double (of_int m / of_int d)"
       "gammaExact p1 p2 p3 p4 = of_int m / of_int d"
    using d by auto
  show ?thesis
    using False de
    by (simp add: getLineIntersection_def intersectExact_def l g
        double_quotient_cmp [OF d0 d51])
qed

subsection \<open>Roundings of the examples\<close>

lemma round_tiny: "double (1 / 1180591620717411303424) = (1 / 1180591620717411303424)"
  by (subst double_eval [where e = "- 70"]) (simp_all add: roundHalfEven_def)

lemma round_one_tiny: "double (1180591620717411303425 / 1180591620717411303424) = 1"
  by (subst double_eval [where e = 0]) (simp_all add: roundHalfEven_def)

lemma round_two_tiny: "double (1 / 590295810358705651712) = (1 / 590295810358705651712)"
  by (subst double_eval [where e = "- 69"]) (simp_all add: roundHalfEven_def)

lemma round_a: "double (2251799813685247 / 4503599627370496) = (2251799813685247 / 4503599627370496)"
  by (subst double_eval [where e = "- 2"]) (simp_all add: roundHalfEven_def)

lemma round_3_2: "double (3 / 2) = (3 / 2)"
  by (subst double_eval [where e = 0]) (simp_all add: roundHalfEven_def)

lemma round_det: "double (4503599627370497 / 4503599627370496) = (4503599627370497 / 4503599627370496)"
  by (subst double_eval [where e = 0]) (simp_all add: roundHalfEven_def)

lemma round_5_2_tie: "double (11258999068426241 / 4503599627370496) = (5 / 2)"
  by (subst double_eval [where e = 1]) (simp_all add: roundHalfEven_def)

lemma round_5_2: "double (5 / 2) = (5 / 2)"
  by (subst double_eval [where e = 1]) (simp_all add: roundHalfEven_def)

lemma round_5_4: "double (5 / 4) = (5 / 4)"
  by (subst double_eval [where e = 0]) (simp_all add: roundHalfEven_def)

lemma round_a_2: "double (2251799813685247 / 9007199254740992) = (2251799813685247 / 9007199254740992)"
  by (subst double_eval [where e = "- 3"]) (simp_all add: roundHalfEven_def)

lemma round_1_tie: "double (9007199254740993 / 9007199254740992) = 1"
  by (subst double_eval [where e = 0]) (simp_all add: roundHalfEven_def)

lemma round_quot: "double (4503599627370496 / 4503599627370497) = (4503599627370495 / 4503599627370496)"
  by (subst double_eval [where e = "- 1"]) (simp_all add: roundHalfEven_def)

lemma swap_example_first:
  "getLineIntersection \<lparr>px = 0, py = - (2 powi (- 70))\<rparr> \<lparr>px = 0, py = 1\<rparr>
     \<lparr>px = - 1, py = 0\<rparr> \<lparr>px = 1, py = 0\<rparr>"
  by (simp add: getLineIntersection_def det_def lambda_def gamma_def fsub_def fmul_def fadd_def
      fdiv_def double_minus round_tiny round_one_tiny round_two_tiny)

lemma swap_example_second:
  "\<not> getLineIntersection \<lparr>px = - 1, py = 0\<rparr> \<lparr>px = 1, py = 0\<rparr>
     \<lparr>px = 0, py = - (2 powi (- 70))\<rparr> \<lparr>px = 0, py = 1\<rparr>"
  by (simp add: getLineIntersection_def det_def lambda_def gamma_def fsub_def fmul_def fadd_def
      fdiv_def double_minus round_tiny round_one_tiny round_two_tiny)

lemma touch_example:
  "getLineIntersection \<lparr>px = 1 / 2 - 2 powi (- 52), py = 1 / 2\<rparr> \<lparr>px = 0, py = 0\<rparr>
     \<lparr>px = 0, py = 0\<rparr> \<lparr>px = 3, py = 1\<rparr>"
  by (simp add: getLineIntersection_def det_def lambda_def gamma_def fsub_def fmul_def fadd_def
      fdiv_def double_minus round_a round_3_2 round_det round_5_2_tie round_5_2 round_5_4
      round_a_2 round_1_tie round_quot)


lemma example_inputs_double:
  "isDouble (1 / 2 - 2 powi (- 52)) \<and> isDouble (- (2 powi (- 70)))"
proof -
  have "isDouble (of_int (2 ^ 51 - 1) * 2 powi (- 52))" by (rule isDoubleI) simp_all
  moreover have "isDouble (of_int (- 1) * 2 powi (- 70))" by (rule isDoubleI) simp_all
  ultimately show ?thesis by (simp add: algebra_simps)
qed

lemma cross_example:
  "getLineIntersection \<lparr>px = 50, py = - 10\<rparr> \<lparr>px = 50, py = 10\<rparr> \<lparr>px = 0, py = 0\<rparr> \<lparr>px = 100, py = 0\<rparr>"
  by (simp add: getLineIntersection_def det_def lambda_def gamma_def fsub_def fmul_def fadd_def
      fdiv_def)

lemma no_cross_example:
  "\<not> getLineIntersection \<lparr>px = 75, py = - 20\<rparr> \<lparr>px = 75, py = - 15\<rparr> \<lparr>px = 0, py = 0\<rparr> \<lparr>px = 100, py = 0\<rparr>"
  by (simp add: getLineIntersection_def det_def lambda_def gamma_def fsub_def fmul_def fadd_def
      fdiv_def)

section \<open>The claims about the geometry kernel\<close>

text \<open>
  Claim C1, as the code has it. The intersection test is true exactly when the computed
  determinant is nonzero and both computed fractions \<open>lambda\<close> and \<open>gamma\<close> lie strictly
  between 0 and 1, and false whenever the computed determinant is zero, which it is for a
  segment that is a single point and for identical segments, in either direction. Where
  no operation but the two divisions rounds, as on points with integer coordinates of
  magnitude at most \<open>2\<^sup>2\<^sup>4\<close>, the computed determinant is
  \<open>(p2.x - p1.x)(p4.y - p3.y) - (p4.x - p3.x)(p2.y - p1.y)\<close>, the test is true exactly when
  the lines meet in one point strictly inside both segments, and it is false when the
  segments' lines meet in a point that is an end of one of the segments.
\<close>

theorem getLineIntersection_iff_fractions:
  "(getLineIntersection p1 p2 p3 p4 \<longleftrightarrow>
      det p1 p2 p3 p4 \<noteq> 0 \<and>
      0 < lambda p1 p2 p3 p4 \<and> lambda p1 p2 p3 p4 < 1 \<and>
      0 < gamma p1 p2 p3 p4 \<and> gamma p1 p2 p3 p4 < 1) \<and>
   (det p1 p2 p3 p4 = 0 \<longrightarrow> \<not> getLineIntersection p1 p2 p3 p4) \<and>
   (p1 = p2 \<or> p3 = p4 \<or> (p1 = p3 \<and> p2 = p4) \<or> (p1 = p4 \<and> p2 = p3) \<longrightarrow>
      det p1 p2 p3 p4 = 0) \<and>
   (gridPoint p1 \<and> gridPoint p2 \<and> gridPoint p3 \<and> gridPoint p4 \<longrightarrow>
      det p1 p2 p3 p4 =
        (px p2 - px p1) * (py p4 - py p3) - (px p4 - px p3) * (py p2 - py p1) \<and>
      (getLineIntersection p1 p2 p3 p4 \<longleftrightarrow>
         det p1 p2 p3 p4 \<noteq> 0 \<and>
         (\<exists>t u. 0 < t \<and> t < 1 \<and> 0 < u \<and> u < 1 \<and> meets p1 p2 p3 p4 t u)) \<and>
      (\<forall>t u. meets p1 p2 p3 p4 t u \<and> (t = 0 \<or> t = 1 \<or> u = 0 \<or> u = 1) \<longrightarrow>
         \<not> getLineIntersection p1 p2 p3 p4))"
proof -
  have "getLineIntersection p1 p2 p3 p4 \<longleftrightarrow>
      det p1 p2 p3 p4 \<noteq> 0 \<and>
      0 < lambda p1 p2 p3 p4 \<and> lambda p1 p2 p3 p4 < 1 \<and>
      0 < gamma p1 p2 p3 p4 \<and> gamma p1 p2 p3 p4 < 1"
    by (simp add: getLineIntersection_def)
  moreover have "det p1 p2 p3 p4 = 0 \<longrightarrow> \<not> getLineIntersection p1 p2 p3 p4"
    by (simp add: getLineIntersection_def)
  moreover have "p1 = p2 \<or> p3 = p4 \<or> (p1 = p3 \<and> p2 = p4) \<or> (p1 = p4 \<and> p2 = p3) \<longrightarrow>
      det p1 p2 p3 p4 = 0"
    using det_degenerate [of p1 p2 p3 p4] by blast
  moreover have "det p1 p2 p3 p4 =
        (px p2 - px p1) * (py p4 - py p3) - (px p4 - px p3) * (py p2 - py p1) \<and>
      (getLineIntersection p1 p2 p3 p4 \<longleftrightarrow>
         det p1 p2 p3 p4 \<noteq> 0 \<and>
         (\<exists>t u. 0 < t \<and> t < 1 \<and> 0 < u \<and> u < 1 \<and> meets p1 p2 p3 p4 t u)) \<and>
      (\<forall>t u. meets p1 p2 p3 p4 t u \<and> (t = 0 \<or> t = 1 \<or> u = 0 \<or> u = 1) \<longrightarrow>
         \<not> getLineIntersection p1 p2 p3 p4)"
    if g: "gridPoint p1" "gridPoint p2" "gridPoint p3" "gridPoint p4"
  proof -
    from grid_det [OF g] have d: "det p1 p2 p3 p4 = detExact p1 p2 p3 p4" by simp
    then have "det p1 p2 p3 p4 =
        (px p2 - px p1) * (py p4 - py p3) - (px p4 - px p3) * (py p2 - py p1)"
      by (simp add: detExact_def)
    moreover have "getLineIntersection p1 p2 p3 p4 \<longleftrightarrow>
         det p1 p2 p3 p4 \<noteq> 0 \<and>
         (\<exists>t u. 0 < t \<and> t < 1 \<and> 0 < u \<and> u < 1 \<and> meets p1 p2 p3 p4 t u)"
      unfolding grid_exact [OF g] d by (rule intersectExact_iff_meets)
    moreover have "\<forall>t u. meets p1 p2 p3 p4 t u \<and> (t = 0 \<or> t = 1 \<or> u = 0 \<or> u = 1) \<longrightarrow>
         \<not> getLineIntersection p1 p2 p3 p4"
      unfolding grid_exact [OF g] using touching_no_intersectExact by blast
    ultimately show ?thesis by blast
  qed
  ultimately show ?thesis by blast
qed

text \<open>
  Identical overlapping segments have determinant zero and do not intersect; a vertical
  and a horizontal segment that share their first end point do not intersect; the segment
  from \<open>(50, -10)\<close> to \<open>(50, 10)\<close> crosses the one from \<open>(0, 0)\<close> to \<open>(100, 0)\<close>.
\<close>

theorem getLineIntersection_iff_fractions_witness:
  "det \<lparr>px = 0, py = 0\<rparr> \<lparr>px = 1, py = 0\<rparr> \<lparr>px = 0, py = 0\<rparr> \<lparr>px = 1, py = 0\<rparr> = 0 \<and>
   \<not> getLineIntersection \<lparr>px = 0, py = 0\<rparr> \<lparr>px = 1, py = 0\<rparr> \<lparr>px = 0, py = 0\<rparr> \<lparr>px = 1, py = 0\<rparr> \<and>
   meets \<lparr>px = 0, py = 0\<rparr> \<lparr>px = 0, py = 5\<rparr> \<lparr>px = 0, py = 0\<rparr> \<lparr>px = 5, py = 0\<rparr> 0 0 \<and>
   det \<lparr>px = 0, py = 0\<rparr> \<lparr>px = 0, py = 5\<rparr> \<lparr>px = 0, py = 0\<rparr> \<lparr>px = 5, py = 0\<rparr> \<noteq> 0 \<and>
   \<not> getLineIntersection \<lparr>px = 0, py = 0\<rparr> \<lparr>px = 0, py = 5\<rparr> \<lparr>px = 0, py = 0\<rparr> \<lparr>px = 5, py = 0\<rparr> \<and>
   getLineIntersection \<lparr>px = 50, py = -10\<rparr> \<lparr>px = 50, py = 10\<rparr> \<lparr>px = 0, py = 0\<rparr> \<lparr>px = 100, py = 0\<rparr>"
proof -
  have g: "gridPoint \<lparr>px = 0, py = 0\<rparr>" "gridPoint \<lparr>px = 0, py = 5\<rparr>" "gridPoint \<lparr>px = 5, py = 0\<rparr>"
    "gridPoint \<lparr>px = 1, py = 0\<rparr>" "gridPoint \<lparr>px = 50, py = - 10\<rparr>" "gridPoint \<lparr>px = 50, py = 10\<rparr>"
    "gridPoint \<lparr>px = 100, py = 0\<rparr>"
    by (simp_all add: gridPoint_def)
  have m: "meets \<lparr>px = 0, py = 0\<rparr> \<lparr>px = 0, py = 5\<rparr> \<lparr>px = 0, py = 0\<rparr> \<lparr>px = 5, py = 0\<rparr> 0 0"
    by (simp add: meets_def)
  have c: "meets \<lparr>px = 50, py = - 10\<rparr> \<lparr>px = 50, py = 10\<rparr> \<lparr>px = 0, py = 0\<rparr> \<lparr>px = 100, py = 0\<rparr>
      (1 / 2) (1 / 2)"
    by (simp add: meets_def)
  have "det \<lparr>px = 0, py = 0\<rparr> \<lparr>px = 1, py = 0\<rparr> \<lparr>px = 0, py = 0\<rparr> \<lparr>px = 1, py = 0\<rparr> = 0 \<and>
     \<not> getLineIntersection \<lparr>px = 0, py = 0\<rparr> \<lparr>px = 1, py = 0\<rparr> \<lparr>px = 0, py = 0\<rparr> \<lparr>px = 1, py = 0\<rparr>"
    using getLineIntersection_iff_fractions
      [of "\<lparr>px = 0, py = 0\<rparr>" "\<lparr>px = 1, py = 0\<rparr>" "\<lparr>px = 0, py = 0\<rparr>" "\<lparr>px = 1, py = 0\<rparr>"]
    by simp
  moreover have "det \<lparr>px = 0, py = 0\<rparr> \<lparr>px = 0, py = 5\<rparr> \<lparr>px = 0, py = 0\<rparr> \<lparr>px = 5, py = 0\<rparr> \<noteq> 0 \<and>
     \<not> getLineIntersection \<lparr>px = 0, py = 0\<rparr> \<lparr>px = 0, py = 5\<rparr> \<lparr>px = 0, py = 0\<rparr> \<lparr>px = 5, py = 0\<rparr>"
    using getLineIntersection_iff_fractions
      [of "\<lparr>px = 0, py = 0\<rparr>" "\<lparr>px = 0, py = 5\<rparr>" "\<lparr>px = 0, py = 0\<rparr>" "\<lparr>px = 5, py = 0\<rparr>"] g m
    by auto
  moreover have "getLineIntersection \<lparr>px = 50, py = -10\<rparr> \<lparr>px = 50, py = 10\<rparr>
      \<lparr>px = 0, py = 0\<rparr> \<lparr>px = 100, py = 0\<rparr>"
  proof -
    have "det \<lparr>px = 50, py = -10\<rparr> \<lparr>px = 50, py = 10\<rparr> \<lparr>px = 0, py = 0\<rparr> \<lparr>px = 100, py = 0\<rparr> = - 2000"
      by (simp add: det_def fsub_def fmul_def)
    then have d: "det \<lparr>px = 50, py = -10\<rparr> \<lparr>px = 50, py = 10\<rparr> \<lparr>px = 0, py = 0\<rparr> \<lparr>px = 100, py = 0\<rparr> \<noteq> 0"
      by simp
    have e: "\<exists>t u::real. 0 < t \<and> t < 1 \<and> 0 < u \<and> u < 1 \<and>
           meets \<lparr>px = 50, py = -10\<rparr> \<lparr>px = 50, py = 10\<rparr> \<lparr>px = 0, py = 0\<rparr> \<lparr>px = 100, py = 0\<rparr> t u"
      using c by (intro exI [of _ "1 / 2"]) simp
    from getLineIntersection_iff_fractions
      [of "\<lparr>px = 50, py = -10\<rparr>" "\<lparr>px = 50, py = 10\<rparr>" "\<lparr>px = 0, py = 0\<rparr>" "\<lparr>px = 100, py = 0\<rparr>"]
      g(1,5,6,7) d e
    show ?thesis by blast
  qed
  ultimately show ?thesis using m by blast
qed

text \<open>
  The claim as stated fails where an operation rounds: the segment from
  \<open>(1/2 - 2\<^sup>-\<^sup>5\<^sup>2, 1/2)\<close> to \<open>(0, 0)\<close> and the segment from \<open>(0, 0)\<close> to \<open>(3, 1)\<close> touch exactly at
  the end point \<open>(0, 0)\<close> they share (fraction 1 of the first, 0 of the second), and the
  test returns true: the computed fractions are both \<open>1 - 2\<^sup>-\<^sup>5\<^sup>2\<close>.
\<close>

theorem getLineIntersection_iff_fractions_counterexample:
  "meets \<lparr>px = 1 / 2 - 2 powi (- 52), py = 1 / 2\<rparr> \<lparr>px = 0, py = 0\<rparr>
     \<lparr>px = 0, py = 0\<rparr> \<lparr>px = 3, py = 1\<rparr> 1 0 \<and>
   getLineIntersection \<lparr>px = 1 / 2 - 2 powi (- 52), py = 1 / 2\<rparr> \<lparr>px = 0, py = 0\<rparr>
     \<lparr>px = 0, py = 0\<rparr> \<lparr>px = 3, py = 1\<rparr>"
  using touch_example by (simp add: meets_def)

text \<open>
  Claim C7, as the code has it. Swapping the roles of the two segments changes the sign of
  the computed determinant and nothing else of it, so both orders return false when it is
  zero; and on points with integer coordinates of magnitude at most \<open>2\<^sup>2\<^sup>4\<close>, where no
  operation but the two divisions rounds, the two orders return the same result.
\<close>

theorem getLineIntersection_symmetric:
  "det p3 p4 p1 p2 = - det p1 p2 p3 p4 \<and>
   (det p1 p2 p3 p4 = 0 \<longrightarrow>
      \<not> getLineIntersection p1 p2 p3 p4 \<and> \<not> getLineIntersection p3 p4 p1 p2) \<and>
   (gridPoint p1 \<and> gridPoint p2 \<and> gridPoint p3 \<and> gridPoint p4 \<longrightarrow>
      getLineIntersection p1 p2 p3 p4 = getLineIntersection p3 p4 p1 p2)"
proof -
  have "det p1 p2 p3 p4 = 0 \<longrightarrow>
      \<not> getLineIntersection p1 p2 p3 p4 \<and> \<not> getLineIntersection p3 p4 p1 p2"
    by (simp add: getLineIntersection_def det_swap [of p1 p2 p3 p4])
  moreover have "getLineIntersection p1 p2 p3 p4 = getLineIntersection p3 p4 p1 p2"
    if g: "gridPoint p1" "gridPoint p2" "gridPoint p3" "gridPoint p4"
    unfolding grid_exact [OF g] grid_exact [OF g(3,4,1,2)] by (rule intersectExact_symmetric)
  ultimately show ?thesis using det_swap [of p3 p4 p1 p2] by (intro conjI impI) blast+
qed

theorem getLineIntersection_symmetric_witness:
  "getLineIntersection \<lparr>px = 0, py = 0\<rparr> \<lparr>px = 100, py = 0\<rparr> \<lparr>px = 50, py = - 10\<rparr> \<lparr>px = 50, py = 10\<rparr> \<and>
   det \<lparr>px = 0, py = 0\<rparr> \<lparr>px = 100, py = 0\<rparr> \<lparr>px = 50, py = - 10\<rparr> \<lparr>px = 50, py = 10\<rparr> = 2000 \<and>
   \<not> getLineIntersection \<lparr>px = 0, py = 0\<rparr> \<lparr>px = 2, py = 2\<rparr> \<lparr>px = 1, py = 1\<rparr> \<lparr>px = 3, py = 3\<rparr> \<and>
   \<not> getLineIntersection \<lparr>px = 1, py = 1\<rparr> \<lparr>px = 3, py = 3\<rparr> \<lparr>px = 0, py = 0\<rparr> \<lparr>px = 2, py = 2\<rparr>"
proof -
  have g: "gridPoint \<lparr>px = 0, py = 0\<rparr>" "gridPoint \<lparr>px = 50, py = - 10\<rparr>"
    "gridPoint \<lparr>px = 50, py = 10\<rparr>" "gridPoint \<lparr>px = 100, py = 0\<rparr>"
    by (simp_all add: gridPoint_def)
  have d: "det \<lparr>px = 50, py = - 10\<rparr> \<lparr>px = 50, py = 10\<rparr> \<lparr>px = 0, py = 0\<rparr> \<lparr>px = 100, py = 0\<rparr> = - 2000"
    by (simp add: det_def fsub_def fmul_def)
  have z: "det \<lparr>px = 0, py = 0\<rparr> \<lparr>px = 2, py = 2\<rparr> \<lparr>px = 1, py = 1\<rparr> \<lparr>px = 3, py = 3\<rparr> = 0"
    by (simp add: det_def fsub_def fmul_def)
  from getLineIntersection_symmetric
      [of "\<lparr>px = 50, py = - 10\<rparr>" "\<lparr>px = 50, py = 10\<rparr>" "\<lparr>px = 0, py = 0\<rparr>" "\<lparr>px = 100, py = 0\<rparr>"]
    getLineIntersection_symmetric
      [of "\<lparr>px = 0, py = 0\<rparr>" "\<lparr>px = 2, py = 2\<rparr>" "\<lparr>px = 1, py = 1\<rparr>" "\<lparr>px = 3, py = 3\<rparr>"]
    g d z cross_example
  show ?thesis by simp
qed

text \<open>
  The claim as stated fails where an operation rounds: the segment from \<open>(0, -2\<^sup>-\<^sup>7\<^sup>0)\<close> to
  \<open>(0, 1)\<close> against the segment from \<open>(-1, 0)\<close> to \<open>(1, 0)\<close> is reported as a crossing, and
  with the two segments swapped it is not (the fraction along the first segment is then
  computed as exactly 1).
\<close>

theorem getLineIntersection_symmetric_counterexample:
  "getLineIntersection \<lparr>px = 0, py = - (2 powi (- 70))\<rparr> \<lparr>px = 0, py = 1\<rparr>
     \<lparr>px = - 1, py = 0\<rparr> \<lparr>px = 1, py = 0\<rparr> \<and>
   \<not> getLineIntersection \<lparr>px = - 1, py = 0\<rparr> \<lparr>px = 1, py = 0\<rparr>
     \<lparr>px = 0, py = - (2 powi (- 70))\<rparr> \<lparr>px = 0, py = 1\<rparr>"
  using swap_example_first swap_example_second by blast

section \<open>Properties of the audio service\<close>

subsection \<open>The quantized frequency\<close>


lemma double_numeral_half [simp]:
  assumes "numeral w < (2 ^ 53 :: int)"
  shows "double (numeral w / 2) = numeral w / 2"
proof -
  from assms have "\<bar>numeral w :: int\<bar> < 2 ^ 53" by simp
  then have "isDouble (of_int (numeral w) * 2 powi (- 1))" by (rule isDoubleI) simp
  then show ?thesis using double_exact [of "numeral w / 2"] by (simp add: power_int_minus)
qed

lemma isDouble_numeral: "numeral w \<le> (2 ^ 53 :: real) \<Longrightarrow> isDouble (numeral w)"
  using isDouble_Ints [of "numeral w"] by simp

lemma isDouble_0: "isDouble 0"
  using isDouble_of_int [of 0] by simp

lemma Math_round_near: "\<bar>Math_round v - v\<bar> \<le> 1 / 2"
  unfolding Math_round_def by linarith

lemma freq_range:
  assumes "0 \<le> x" and "x \<le> 1"
  shows "200 \<le> freq x \<and> freq x \<le> 800 \<and> isDouble (freq x)"
proof -
  have m: "0 \<le> fmul x 600 \<and> fmul x 600 \<le> 600"
    unfolding fmul_def
    using double_ge [OF isDouble_0, of "x * 600"] double_le [of 600 "x * 600"] assms
    by (simp add: isDouble_numeral)
  then have "200 \<le> fadd 200 (fmul x 600) \<and> fadd 200 (fmul x 600) \<le> 800"
    unfolding fadd_def
    using double_ge [of 200 "200 + fmul x 600"] double_le [of 800 "200 + fmul x 600"]
    by (simp add: isDouble_numeral)
  then show ?thesis
    by (simp add: freq_def baseFreq_def freqRange_def fadd_def isDouble_double)
qed


lemma quotient_range:
  assumes "200 \<le> f" and "f \<le> 800"
  shows "4 \<le> fdiv f 50 \<and> fdiv f 50 \<le> 16"
  unfolding fdiv_def
  using double_ge [of 4 "f / 50"] double_le [of 16 "f / 50"] assms
  by (simp add: isDouble_numeral)

lemma round_range:
  assumes "4 \<le> d" and "d \<le> 16"
  shows "4 \<le> \<lfloor>d + 1 / 2\<rfloor> \<and> \<lfloor>d + 1 / 2\<rfloor> \<le> 16"
  using assms by (simp add: le_floor_iff floor_le_iff)

lemma fmul_50:
  assumes "\<bar>n\<bar> \<le> 16"
  shows "fmul (of_int n) 50 = of_int n * 50"
proof -
  have "real_of_int \<bar>n\<bar> \<le> 16" using assms by linarith
  then have "\<bar>real_of_int n * 50\<bar> \<le> 2 ^ 53" by simp
  then show ?thesis by (intro fmul_Ints) simp_all
qed

lemma quantizedFreq_eq:
  assumes "0 \<le> x" and "x \<le> 1"
  shows "quantizedFreq x = 50 * of_int \<lfloor>fdiv (freq x) 50 + 1 / 2\<rfloor> \<and>
    4 \<le> \<lfloor>fdiv (freq x) 50 + 1 / 2\<rfloor> \<and> \<lfloor>fdiv (freq x) 50 + 1 / 2\<rfloor> \<le> 16"
proof -
  from freq_range [OF assms] have "200 \<le> freq x" "freq x \<le> 800" by simp_all
  from round_range [of "fdiv (freq x) 50"] quotient_range [OF this]
  have r: "4 \<le> \<lfloor>fdiv (freq x) 50 + 1 / 2\<rfloor>" "\<lfloor>fdiv (freq x) 50 + 1 / 2\<rfloor> \<le> 16" by simp_all
  then have "\<bar>\<lfloor>fdiv (freq x) 50 + 1 / 2\<rfloor>\<bar> \<le> 16" by simp
  from fmul_50 [OF this] r show ?thesis
    by (simp add: quantizedFreq_def Math_round_def)
qed

lemma quantizedFreq_range:
  assumes "0 \<le> x" and "x \<le> 1"
  shows "200 \<le> quantizedFreq x \<and> quantizedFreq x \<le> 800"
proof -
  from quantizedFreq_eq [OF assms]
  have q: "quantizedFreq x = 50 * of_int \<lfloor>fdiv (freq x) 50 + 1 / 2\<rfloor>"
    and "4 \<le> \<lfloor>fdiv (freq x) 50 + 1 / 2\<rfloor>" "\<lfloor>fdiv (freq x) 50 + 1 / 2\<rfloor> \<le> 16" by simp_all
  then have "4 \<le> real_of_int \<lfloor>fdiv (freq x) 50 + 1 / 2\<rfloor>"
    "real_of_int \<lfloor>fdiv (freq x) 50 + 1 / 2\<rfloor> \<le> 16" by linarith+
  with q show ?thesis by linarith
qed











lemma quantizedFreq_formula:
  "quantizedFreq x = fmul (Math_round (fdiv (fadd 200 (fmul x 600)) 50)) 50"
  by (simp add: quantizedFreq_def freq_def baseFreq_def freqRange_def)

lemma quantizedFreq_multiple:
  assumes "0 \<le> x" and "x \<le> 1"
  shows "\<exists>k::int. quantizedFreq x = 50 * of_int k"
  using quantizedFreq_eq [OF assms] by blast

text \<open>
  The rounding of the product can move the frequency onto a tie: at the double nearest to
  \<open>1 / 24\<close> the exact value \<open>200 + x * 600\<close> lies below 225, the computed frequency is 225,
  and the quantized frequency is 250.
\<close>

lemma round_tie_freq: "double (450359962737049575 / 18014398509481984) = 25"
  by (subst double_eval [where e = 4]) (simp_all add: roundHalfEven_def)

lemma quantizedFreq_tie_example:
  "200 + 6004799503160661 / 144115188075855872 * 600 < (225::real) \<and>
   freq (6004799503160661 / 144115188075855872) = 225 \<and>
   quantizedFreq (6004799503160661 / 144115188075855872) = 250"
  by (simp add: quantizedFreq_def freq_def baseFreq_def freqRange_def fadd_def fmul_def fdiv_def
      Math_round_def round_tie_freq)

subsection \<open>The voice\<close>

text \<open>The two nodes of a voice are the last two of the context while it is being built.\<close>

lemma updNode_fst:
  "updNode (length xs) f (c\<lparr>nodes := xs @ [a, b]\<rparr>) = c\<lparr>nodes := xs @ [f a, b]\<rparr>"
  by (simp add: updNode_def)

lemma updNode_snd:
  "updNode (Suc (length xs)) f (c\<lparr>nodes := xs @ [a, b]\<rparr>) = c\<lparr>nodes := xs @ [a, f b]\<rparr>"
  by (simp add: updNode_def nth_append list_update_append)

lemma connect_nodes:
  "connect n t (c\<lparr>nodes := ns\<rparr>) = (connect n t c)\<lparr>nodes := ns\<rparr>"
  by (simp add: connect_def)

lemma createGain_nodes:
  "createGain (c\<lparr>nodes := ns\<rparr>) =
     (c\<lparr>nodes := ns @ [GainNode \<lparr>pvalue = 1, events = []\<rparr>]\<rparr>, length ns)"
  by (simp add: createGain_def)

lemma playPluck_ready:
  assumes "ctx s = Some c" "masterGain s = Some mg" "reverbNode s = Some rv"
  shows "playPluck x s = s\<lparr>ctx := Some (c\<lparr>
     nodes := nodes c @
       [OscillatorNode Triangle
          \<lparr>pvalue = 440, events = [SetValueAtTime (quantizedFreq x) (currentTime c)]\<rparr>
          (Some (currentTime c)) (Some (fadd (currentTime c) 2)),
        GainNode \<lparr>pvalue = 1, events = [SetValueAtTime 0 (currentTime c),
           LinearRampToValueAtTime (double 0.8) (fadd (currentTime c) (double 0.01)),
           ExponentialRampToValueAtTime (double 0.001) (fadd (currentTime c) 1.5)]\<rparr>],
     connections := connections c @
       [(length (nodes c), ToNode (Suc (length (nodes c)))),
        (Suc (length (nodes c)), ToNode mg), (Suc (length (nodes c)), ToNode rv)]\<rparr>)\<rparr>"
  using assms
  apply (simp add: playPluck_def createOscillator_def createGain_nodes updNode_fst updNode_snd
      connect_nodes)
  apply (simp add: Let_def connect_def)
  done

lemma playPluck_voices:
  assumes "ctx s = Some c" "masterGain s = Some mg" "reverbNode s = Some rv"
  shows "voices (playPluck x s) = voices s @ [[quantizedFreq x]]"
  using assms(1) unfolding playPluck_ready [OF assms]
  by (simp add: voices_def List.map_filter_def)

lemma playPluck_not_ready:
  assumes "ctx s = None \<or> masterGain s = None \<or> reverbNode s = None"
  shows "playPluck x s = s"
proof (cases "ctx s")
  case None
  then show ?thesis by (simp add: playPluck_def)
next
  case c: (Some c)
  show ?thesis
  proof (cases "masterGain s")
    case None
    with c show ?thesis by (simp add: playPluck_def)
  next
    case mg: (Some mg)
    with c assms have "reverbNode s = None" by simp
    with c mg show ?thesis by (simp add: playPluck_def)
  qed
qed

lemma initialize_again: "ctx s \<noteq> None \<Longrightarrow> initialize env s = Inr s"
  by (simp add: initialize_def)

lemma initialize_fresh:
  assumes "ctx s = None" and "audio_supported env"
  shows "\<exists>s1 c. initialize env s = Inr s1 \<and> ready s1 \<and> ctx s1 = Some c \<and>
     length (nodes c) = 2 \<and> masterGain s1 = Some 0 \<and> reverbNode s1 = Some 1 \<and>
     connections c = [(0, Destination), (1, ToNode 0)]"
  using assms
  by (simp add: initialize_def ready_def createImpulseResponse_def createGain_def
      createConvolver_def Let_def newAudioContext_def updNode_def connect_def)

lemma initialize_unsupported:
  assumes "ctx s = None" and "\<not> audio_supported env"
  shows "initialize env s = Inl TypeError"
  using assms by (simp add: initialize_def)



text \<open>
  Claim C8. A successful \<open>initialize\<close> leaves the service ready, and every later
  \<open>initialize\<close> returns the service as it finds it: the context, its nodes and its
  connections are those the first call built, one master gain into the destination and one
  convolver into the master gain. (The service is as its constructor left it, or ready
  already, when the first call is made.)
\<close>

theorem initialize_idempotent:
  assumes "ctx s \<noteq> None \<longrightarrow> ready s" and "initialize env s = Inr s1"
  shows "ready s1 \<and> (\<forall>env'. initialize env' s1 = Inr s1) \<and>
    (ctx s = None \<longrightarrow>
       (\<exists>c. ctx s1 = Some c \<and> length (nodes c) = 2 \<and>
            connections c = [(0, Destination), (1, ToNode 0)]))"
proof (cases "ctx s")
  case None
  with assms(2) have "audio_supported env"
    using initialize_unsupported [of s env] by auto
  from initialize_fresh [OF None this] assms(2)
  have "ready s1" and "\<exists>c. ctx s1 = Some c \<and> length (nodes c) = 2 \<and>
      connections c = [(0, Destination), (1, ToNode 0)]"
    by auto
  then show ?thesis using initialize_again [of s1] by (simp add: ready_def)
next
  case (Some c)
  with assms(2) have "s1 = s" by (simp add: initialize_def)
  with Some assms(1) show ?thesis using initialize_again [of s] by simp
qed

theorem initialize_idempotent_witness:
  "\<exists>s1. initialize \<lparr>audio_supported = True, deviceSampleRate = 48000, startsSuspended = True,
            noise = (\<lambda>n. 1 / 2)\<rparr> newAudioService = Inr s1 \<and>
     ready s1 \<and>
     initialize \<lparr>audio_supported = True, deviceSampleRate = 44100, startsSuspended = False,
            noise = (\<lambda>n. 0)\<rparr> s1 = Inr s1"
proof -
  obtain s1 where s1: "initialize \<lparr>audio_supported = True, deviceSampleRate = 48000,
      startsSuspended = True, noise = (\<lambda>n. 1 / 2)\<rparr> newAudioService = Inr s1"
    using initialize_fresh [of newAudioService "\<lparr>audio_supported = True, deviceSampleRate = 48000,
      startsSuspended = True, noise = (\<lambda>n. 1 / 2)\<rparr>"]
    by (auto simp: newAudioService_def)
  have "ctx newAudioService \<noteq> None \<longrightarrow> ready newAudioService"
    by (simp add: newAudioService_def)
  from initialize_idempotent [OF this s1] s1 show ?thesis by blast
qed

text \<open>
  Claim C9. While the service has no audio context, \<open>playPluck x\<close> returns the service
  unchanged for every \<open>x\<close>: no voice is added, and the call has no error to give.
\<close>

theorem playPluck_without_context:
  assumes "ctx s = None"
  shows "playPluck x s = s \<and> voices (playPluck x s) = []"
  using assms playPluck_not_ready [of s x] by (simp add: voices_def)

theorem playPluck_without_context_witness:
  "playPluck (1 / 2) newAudioService = newAudioService \<and>
   voices (playPluck (1 / 2) newAudioService) = []"
  using playPluck_without_context [of newAudioService "1 / 2"]
  by (simp add: newAudioService_def voices_def)

text \<open>
  Claim C10. For \<open>x\<close> between 0 and 1, the quantized frequency
  \<open>round ((200 + x * 600) / 50) * 50\<close>, computed in doubles, is an integer multiple of 50
  between 200 and 800.
\<close>

theorem quantizedFreq_bounds:
  assumes "0 \<le> x" and "x \<le> 1"
  shows "quantizedFreq x = fmul (Math_round (fdiv (fadd 200 (fmul x 600)) 50)) 50 \<and>
    (\<exists>k::int. quantizedFreq x = 50 * of_int k) \<and>
    200 \<le> quantizedFreq x \<and> quantizedFreq x \<le> 800"
  using quantizedFreq_formula [of x] quantizedFreq_multiple [OF assms]
    quantizedFreq_range [OF assms]
  by blast

theorem quantizedFreq_bounds_witness:
  "(0::real) \<le> 3 / 8 \<and> (3 / 8 :: real) \<le> 1 \<and> quantizedFreq (3 / 8) = 450"
  using quantizedFreq_bounds [of "3 / 8"]
  by (simp add: Math_round_def fadd_def fmul_def fdiv_def)

section \<open>Properties of the per-frame callback\<close>

subsection \<open>The hand loop\<close>

lemma handStep_short: "\<not> 12 < length a \<Longrightarrow> handStep w h a acc = Inl TypeError"
  by (simp add: handStep_def landmarkAt_def)

lemma handStep_long:
  "12 < length a \<Longrightarrow> \<exists>acc'. handStep w h a acc = Inr acc' \<and>
     activePluckers acc' = activePluckers acc @ [tip w h (a ! 12)] \<and>
     leftIndex acc' = (if leftIndex acc = None then Some (tip w h (a ! 8)) else leftIndex acc) \<and>
     rightIndex acc' = (if leftIndex acc \<noteq> None \<and> rightIndex acc = None
                        then Some (tip w h (a ! 8)) else rightIndex acc)"
  by (simp add: handStep_def landmarkAt_def Let_def)

lemma handStep_Inr:
  assumes "handStep w h a acc = Inr acc'"
  shows "activePluckers acc' = activePluckers acc @ [tip w h (a ! 12)] \<and>
     leftIndex acc' = (if leftIndex acc = None then Some (tip w h (a ! 8)) else leftIndex acc) \<and>
     rightIndex acc' = (if leftIndex acc \<noteq> None \<and> rightIndex acc = None
                        then Some (tip w h (a ! 8)) else rightIndex acc)"
proof (cases "12 < length a")
  case True
  from handStep_long [OF True, of w h acc] assms show ?thesis by auto
next
  case False
  from handStep_short [OF False, of w h acc] assms show ?thesis by simp
qed

lemma extractLoop_length:
  "extractLoop w h hands acc = Inr ex \<Longrightarrow>
   length (activePluckers ex) = length (activePluckers acc) + length hands"
proof (induction hands arbitrary: acc)
  case Nil
  then show ?case by simp
next
  case (Cons a hands)
  from Cons.prems obtain acc1 where s: "handStep w h a acc = Inr acc1"
    and l: "extractLoop w h hands acc1 = Inr ex"
    by (auto split: sum.splits)
  from Cons.IH [OF l] handStep_Inr [OF s] show ?case by simp
qed

lemma extractLoop_kept:
  "extractLoop w h hands acc = Inr ex \<Longrightarrow> leftIndex acc \<noteq> None \<Longrightarrow> rightIndex acc \<noteq> None \<Longrightarrow>
   leftIndex ex = leftIndex acc \<and> rightIndex ex = rightIndex acc"
proof (induction hands arbitrary: acc)
  case Nil
  then show ?case by simp
next
  case (Cons a hands)
  from Cons.prems(1) obtain acc1 where s: "handStep w h a acc = Inr acc1"
    and l: "extractLoop w h hands acc1 = Inr ex"
    by (auto split: sum.splits)
  from handStep_Inr [OF s] Cons.prems(2,3)
  have k: "leftIndex acc1 = leftIndex acc" "rightIndex acc1 = rightIndex acc" by simp_all
  with Cons.IH [OF l] Cons.prems(2,3) show ?case by simp
qed

lemma extractLoop_anchors:
  assumes "extractLoop w h hands acc = Inr ex" and "leftIndex acc = None" and "rightIndex acc = None"
  shows "(leftIndex ex \<noteq> None \<longleftrightarrow> 1 \<le> length hands) \<and> (rightIndex ex \<noteq> None \<longleftrightarrow> 2 \<le> length hands)"
proof (cases hands)
  case Nil
  with assms show ?thesis by simp
next
  case (Cons a rest)
  from assms(1) Cons obtain acc1 where s1: "handStep w h a acc = Inr acc1"
    and l1: "extractLoop w h rest acc1 = Inr ex"
    by (auto split: sum.splits)
  from handStep_Inr [OF s1] assms(2,3)
  have a1: "leftIndex acc1 \<noteq> None" "rightIndex acc1 = None" by simp_all
  show ?thesis
  proof (cases rest)
    case Nil
    with l1 a1 Cons show ?thesis by simp
  next
    case c2: (Cons b rest2)
    from l1 c2 obtain acc2 where s2: "handStep w h b acc1 = Inr acc2"
      and l2: "extractLoop w h rest2 acc2 = Inr ex"
      by (auto split: sum.splits)
    from handStep_Inr [OF s2] a1
    have a2: "leftIndex acc2 \<noteq> None" "rightIndex acc2 \<noteq> None" by auto
    from extractLoop_kept [OF l2 a2] a2 Cons c2 show ?thesis by simp
  qed
qed

lemma extractLandmarks_pluckers:
  "extractLandmarks env results = Inr ex \<Longrightarrow> length (activePluckers ex) = numHands results"
  unfolding extractLandmarks_def numHands_def
  by (drule extractLoop_length) (simp split: option.splits)

lemma extractLandmarks_anchors:
  assumes "extractLandmarks env results = Inr ex"
  shows "(leftIndex ex \<noteq> None \<and> rightIndex ex \<noteq> None) \<longleftrightarrow> 2 \<le> numHands results"
proof -
  from assms have l: "extractLoop (width env) (height env)
       (case multiHandLandmarks results of None \<Rightarrow> [] | Some hands \<Rightarrow> hands)
       \<lparr>leftIndex = None, rightIndex = None, activePluckers = []\<rparr> = Inr ex"
    unfolding extractLandmarks_def .
  from extractLoop_anchors [OF l] show ?thesis
    unfolding numHands_def by (cases "multiHandLandmarks results") auto
qed

lemma extractLoop_wf:
  "\<forall>a \<in> set hands. 12 < length a \<Longrightarrow> \<exists>ex. extractLoop w h hands acc = Inr ex"
proof (induction hands arbitrary: acc)
  case Nil
  then show ?case by simp
next
  case (Cons a hands)
  then have "12 < length a" by simp
  from handStep_long [OF this, of w h acc] obtain acc1 where "handStep w h a acc = Inr acc1"
    by blast
  moreover from Cons obtain ex where "extractLoop w h hands acc1 = Inr ex" by fastforce
  ultimately show ?case by simp
qed

subsection \<open>The plucker loop\<close>

lemma pluckerStep_prev:
  "prevHandPos (fst (pluckerStep env l r i p acc)) = (prevHandPos (fst acc))(i \<mapsto> p)"
  by (cases acc) (simp add: pluckerStep_def Let_def split: option.splits)

lemma pluckerStep_events:
  "snd (pluckerStep env l r i p acc) = snd acc @ crossing env l r (prevHandPos (fst acc) i) i p"
  by (cases acc) (simp add: pluckerStep_def crossing_def Let_def split: option.splits)

lemma pluckerStep_ripples:
  "ripples (fst (pluckerStep env l r i p acc)) =
     spawnAll (ripples (fst acc)) (spawnCalls env (crossing env l r (prevHandPos (fst acc) i) i p))"
  by (cases acc)
    (simp add: pluckerStep_def crossing_def spawnAll_def spawnCalls_def Let_def split: option.splits)

lemma pluckerStep_audio:
  "audioService (fst (pluckerStep env l r i p acc)) =
     foldl (\<lambda>s e. playPluck (normalizedPosition e) s) (audioService (fst acc))
       (crossing env l r (prevHandPos (fst acc) i) i p)"
  by (cases acc) (simp add: pluckerStep_def crossing_def Let_def split: option.splits)

lemma crossing_slot: "e \<in> set (crossing env l r prev i p) \<Longrightarrow> slot e = i"
  by (auto simp: crossing_def split: option.splits if_splits)

lemma filter_crossing:
  "filter (\<lambda>e. slot e = k) (crossing env l r prev i p) = (if k = i then crossing env l r prev i p else [])"
  by (auto simp: crossing_def split: option.splits)

lemma pluckersLoop_prev:
  "prevHandPos (fst (pluckersLoop env l r i ps acc)) k =
     (if i \<le> k \<and> k < i + length ps then Some (ps ! (k - i)) else prevHandPos (fst acc) k)"
proof (induction ps arbitrary: i acc)
  case Nil
  then show ?case by auto
next
  case (Cons p ps)
  show ?case
    by (auto simp: Cons.IH pluckerStep_prev nth_Cons' Suc_diff_Suc)
qed

lemma pluckersLoop_slot:
  "filter (\<lambda>e. slot e = k) (snd (pluckersLoop env l r i ps acc)) =
     filter (\<lambda>e. slot e = k) (snd acc) @
     (if i \<le> k \<and> k < i + length ps
      then crossing env l r (prevHandPos (fst acc) k) k (ps ! (k - i)) else [])"
proof (induction ps arbitrary: i acc)
  case Nil
  then show ?case by auto
next
  case (Cons p ps)
  show ?case
    by (auto simp: Cons.IH pluckerStep_prev pluckerStep_events filter_crossing nth_Cons' Suc_diff_Suc)
qed

lemma pluckersLoop_no_history:
  "\<forall>k\<ge>i. prevHandPos (fst acc) k = None \<Longrightarrow> snd (pluckersLoop env l r i ps acc) = snd acc"
proof (induction ps arbitrary: i acc)
  case Nil
  then show ?case by simp
next
  case (Cons p ps)
  have "\<forall>k\<ge>Suc i. prevHandPos (fst (pluckerStep env l r i p acc)) k = None"
    using Cons.prems by (simp add: pluckerStep_prev)
  from Cons.IH [OF this] Cons.prems show ?case
    by (simp add: pluckerStep_events crossing_def)
qed

lemma spawnAll_append: "spawnAll rs (xs @ ys) = spawnAll (spawnAll rs xs) ys"
  by (simp add: spawnAll_def)

text \<open>
  The loop makes its plucks in order: each is one \<^verbatim>\<open>playPluck\<close> on the audio service and
  one \<^verbatim>\<open>spawnRipple\<close>.
\<close>

lemma pluckersLoop_effects:
  "\<exists>new. snd (pluckersLoop env l r i ps acc) = snd acc @ new \<and>
     ripples (fst (pluckersLoop env l r i ps acc)) =
       spawnAll (ripples (fst acc)) (spawnCalls env new) \<and>
     audioService (fst (pluckersLoop env l r i ps acc)) =
       foldl (\<lambda>s e. playPluck (normalizedPosition e) s) (audioService (fst acc)) new"
proof (induction ps arbitrary: i acc)
  case Nil
  then show ?case by (simp add: spawnAll_def spawnCalls_def)
next
  case (Cons p ps)
  from Cons.IH [of "Suc i" "pluckerStep env l r i p acc"] obtain new where
    n: "snd (pluckersLoop env l r (Suc i) ps (pluckerStep env l r i p acc)) =
          snd (pluckerStep env l r i p acc) @ new"
       "ripples (fst (pluckersLoop env l r (Suc i) ps (pluckerStep env l r i p acc))) =
          spawnAll (ripples (fst (pluckerStep env l r i p acc))) (spawnCalls env new)"
       "audioService (fst (pluckersLoop env l r (Suc i) ps (pluckerStep env l r i p acc))) =
          foldl (\<lambda>s e. playPluck (normalizedPosition e) s)
            (audioService (fst (pluckerStep env l r i p acc))) new"
    by blast
  show ?case
    apply (rule exI [of _ "crossing env l r (prevHandPos (fst acc) i) i p @ new"])
    using n
    by (simp add: pluckerStep_events pluckerStep_ripples pluckerStep_audio spawnAll_append
        spawnCalls_def)
qed

lemma pluckersLoop_dom:
  "dom (prevHandPos (fst (pluckersLoop env l r i ps acc))) =
     dom (prevHandPos (fst acc)) \<union> {i..<i + length ps}"
  by (auto simp: dom_def pluckersLoop_prev)

subsection \<open>The callback\<close>

lemma onResults_not_ready: "\<not> surface_ready env \<Longrightarrow> onResults env results st = Inr (st, [])"
  by (simp add: onResults_def)

lemma onResults_error:
  "surface_ready env \<Longrightarrow> extractLandmarks env results = Inl e \<Longrightarrow> onResults env results st = Inl e"
  by (simp add: onResults_def)

lemma onResults_anchors:
  assumes "surface_ready env" and "extractLandmarks env results = Inr ex"
    and "leftIndex ex = Some l" and "rightIndex ex = Some r"
  shows "onResults env results st =
     Inr ((fst (pluckersLoop env l r 0 (activePluckers ex) (st, [])))
            \<lparr>ripples := advanceRipples
               (ripples (fst (pluckersLoop env l r 0 (activePluckers ex) (st, []))))\<rparr>,
          snd (pluckersLoop env l r 0 (activePluckers ex) (st, [])))"
  using assms by (simp add: onResults_def split_def Let_def)

lemma onResults_no_anchors:
  assumes "surface_ready env" and "extractLandmarks env results = Inr ex"
    and "leftIndex ex = None \<or> rightIndex ex = None"
  shows "onResults env results st =
     Inr (st\<lparr>prevHandPos := Map.empty, ripples := advanceRipples (ripples st)\<rparr>, [])"
  using assms by (auto simp: onResults_def split: option.splits)

lemma onResults_Inr_extract:
  assumes "surface_ready env" and "onResults env results st = Inr (st', evs)"
  shows "\<exists>ex. extractLandmarks env results = Inr ex"
  using assms by (cases "extractLandmarks env results") (simp_all add: onResults_def)

lemma onResults_empty_history:
  assumes "prevHandPos st = Map.empty" and "onResults env results st = Inr (st', evs)"
  shows "evs = []"
proof (cases "surface_ready env")
  case False
  with assms(2) show ?thesis by (simp add: onResults_def)
next
  case True
  from onResults_Inr_extract [OF True assms(2)] obtain ex
    where ex: "extractLandmarks env results = Inr ex" by blast
  show ?thesis
  proof (cases "leftIndex ex = None \<or> rightIndex ex = None")
    case True
    from onResults_no_anchors [OF \<open>surface_ready env\<close> ex True, of st] assms(2)
    show ?thesis by simp
  next
    case False
    then obtain l r where lr: "leftIndex ex = Some l" "rightIndex ex = Some r" by auto
    have "snd (pluckersLoop env l r 0 (activePluckers ex) (st, [])) = []"
      using pluckersLoop_no_history [of 0 "(st, [])" env l r "activePluckers ex"] assms(1)
      by simp
    with onResults_anchors [OF True ex lr, of st] assms(2) show ?thesis by simp
  qed
qed

lemma onResults_dom:
  assumes "surface_ready env" and "onResults env results st = Inr (st', evs)"
  shows "dom (prevHandPos st') =
    (if 2 \<le> numHands results then dom (prevHandPos st) \<union> {0..<numHands results} else {})"
proof -
  from onResults_Inr_extract [OF assms] obtain ex
    where ex: "extractLandmarks env results = Inr ex" by blast
  note n = extractLandmarks_pluckers [OF ex] and a = extractLandmarks_anchors [OF ex]
  show ?thesis
  proof (cases "leftIndex ex = None \<or> rightIndex ex = None")
    case True
    with a have "\<not> 2 \<le> numHands results" by auto
    with onResults_no_anchors [OF assms(1) ex True, of st] assms(2)
    show ?thesis by auto
  next
    case False
    then obtain l r where lr: "leftIndex ex = Some l" "rightIndex ex = Some r" by auto
    with a have "2 \<le> numHands results" by auto
    with onResults_anchors [OF assms(1) ex lr, of st] assms(2) n
    show ?thesis by (auto simp: pluckersLoop_dom)
  qed
qed

lemma onResults_effects:
  assumes "surface_ready env" and "onResults env results st = Inr (st', evs)"
  shows "ripples st' = frameRipples (ripples st) (spawnCalls env evs) \<and>
    audioService st' = foldl (\<lambda>s e. playPluck (normalizedPosition e) s) (audioService st) evs"
proof -
  from onResults_Inr_extract [OF assms] obtain ex
    where ex: "extractLandmarks env results = Inr ex" by blast
  show ?thesis
  proof (cases "leftIndex ex = None \<or> rightIndex ex = None")
    case True
    with onResults_no_anchors [OF assms(1) ex True, of st] assms(2)
    show ?thesis by (auto simp: frameRipples_def spawnAll_def spawnCalls_def)
  next
    case False
    then obtain l r where lr: "leftIndex ex = Some l" "rightIndex ex = Some r" by auto
    from pluckersLoop_effects [of env l r 0 "activePluckers ex" "(st, [])"] obtain new where
      "snd (pluckersLoop env l r 0 (activePluckers ex) (st, [])) = new"
      "ripples (fst (pluckersLoop env l r 0 (activePluckers ex) (st, []))) =
         spawnAll (ripples st) (spawnCalls env new)"
      "audioService (fst (pluckersLoop env l r 0 (activePluckers ex) (st, []))) =
         foldl (\<lambda>s e. playPluck (normalizedPosition e) s) (audioService st) new"
      by auto
    with onResults_anchors [OF assms(1) ex lr, of st] assms(2)
    show ?thesis by (auto simp: frameRipples_def)
  qed
qed

text \<open>The callback returns whenever every detected hand has its landmarks 8 and 12.\<close>

lemma onResults_returns:
  assumes "\<forall>hands. multiHandLandmarks results = Some hands \<longrightarrow> (\<forall>a \<in> set hands. 12 < length a)"
  shows "\<exists>st' evs. onResults env results st = Inr (st', evs)"
proof (cases "surface_ready env")
  case False
  then show ?thesis by (simp add: onResults_def)
next
  case True
  have "\<forall>a \<in> set (case multiHandLandmarks results of None \<Rightarrow> [] | Some hands \<Rightarrow> hands).
      12 < length a"
    using assms by (cases "multiHandLandmarks results") simp_all
  from extractLoop_wf [OF this] obtain ex where ex: "extractLandmarks env results = Inr ex"
    unfolding extractLandmarks_def by blast
  show ?thesis
  proof (cases "leftIndex ex = None \<or> rightIndex ex = None")
    case True
    from onResults_no_anchors [OF \<open>surface_ready env\<close> ex True, of st] show ?thesis by blast
  next
    case False
    then obtain l r where "leftIndex ex = Some l" "rightIndex ex = Some r" by auto
    from onResults_anchors [OF True ex this, of st] show ?thesis by blast
  qed
qed

lemma spawnAll_eq:
  "spawnAll rs calls =
     rs @ map (\<lambda>(fresh, x, y). \<lparr>rid = fresh, rx = x, ry = y, age = 0, maxAge = 60, intensity = 1\<rparr>) calls"
  unfolding spawnAll_def
  by (induction calls arbitrary: rs) (auto simp: spawnRipple_def)

text \<open>With the service ready, every pluck of a frame adds its voice.\<close>

lemma playPluck_ready_kept:
  assumes "ready s"
  shows "ready (playPluck x s) \<and> voices (playPluck x s) = voices s @ [[quantizedFreq x]]"
proof -
  from assms obtain c mg rv where
    r: "ctx s = Some c" "masterGain s = Some mg" "reverbNode s = Some rv"
    by (auto simp: ready_def)
  from playPluck_voices [OF r, of x] show ?thesis
    unfolding playPluck_ready [OF r] using r by (simp add: ready_def)
qed

lemma voices_plucks:
  "ready s \<Longrightarrow>
   ready (foldl (\<lambda>s e. playPluck (normalizedPosition e) s) s evs) \<and>
   voices (foldl (\<lambda>s e. playPluck (normalizedPosition e) s) s evs) =
     voices s @ map (\<lambda>e. [quantizedFreq (normalizedPosition e)]) evs"
proof (induction evs arbitrary: s)
  case Nil
  then show ?case by simp
next
  case (Cons e evs)
  from playPluck_ready_kept [OF Cons.prems, of "normalizedPosition e"]
  have r: "ready (playPluck (normalizedPosition e) s)"
    and v: "voices (playPluck (normalizedPosition e) s) =
      voices s @ [[quantizedFreq (normalizedPosition e)]]"
    by simp_all
  from Cons.IH [OF r] v show ?case by simp
qed

text \<open>The ripple of a pluck is in the list the frame leaves, aged by one.\<close>

lemma ripple_of_pluck:
  assumes "e \<in> set evs"
  shows "\<lparr>rid = freshId env (slot e), rx = px (point e), ry = py (point e), age = 1, maxAge = 60,
      intensity = 1\<rparr> \<in> set (advanceRipples (spawnAll rs (spawnCalls env evs)))"
proof -
  let ?r = "\<lparr>rid = freshId env (slot e), rx = px (point e), ry = py (point e), age = 0,
      maxAge = 60, intensity = 1\<rparr>"
  have "?r \<in> set (spawnAll rs (spawnCalls env evs))"
    using assms by (force simp: spawnAll_eq spawnCalls_def)
  then have "?r\<lparr>age := fadd (age ?r) 1\<rparr> \<in> set (ageRipples (spawnAll rs (spawnCalls env evs)))"
    unfolding ageRipples_def set_map by (rule imageI)
  then show ?thesis by (simp add: advanceRipples_def fadd_def)
qed

subsection \<open>The example frames\<close>

lemma handWith_length: "length (handWith a b) = 21"
  by (simp add: handWith_def)

lemma handWith_8: "handWith a b ! 8 = a"
  by (simp add: handWith_def nth_append)

lemma handWith_12: "handWith a b ! 12 = b"
  by (simp add: handWith_def nth_append)

lemma handStep_handWith:
  "handStep w h (handWith a b) acc =
     Inr ((if leftIndex acc = None then acc\<lparr>leftIndex := Some (tip w h a)\<rparr>
           else if rightIndex acc = None then acc\<lparr>rightIndex := Some (tip w h a)\<rparr>
           else acc)\<lparr>activePluckers := activePluckers acc @ [tip w h b]\<rparr>)"
  by (simp add: handStep_def landmarkAt_def handWith_length handWith_8 handWith_12 Let_def)

lemma extract_twoHands:
  "extractLandmarks exampleEnv twoHands =
     Inr \<lparr>leftIndex = Some \<lparr>px = 0, py = 0\<rparr>, rightIndex = Some \<lparr>px = 100, py = 0\<rparr>,
          activePluckers = [\<lparr>px = 50, py = 10\<rparr>, \<lparr>px = 75, py = - 15\<rparr>]\<rparr>"
  by (simp add: extractLandmarks_def exampleEnv_def twoHands_def handStep_handWith tip_def
      fmul_def double_minus)

lemma extract_oneHand:
  "extractLandmarks exampleEnv oneHand =
     Inr \<lparr>leftIndex = Some \<lparr>px = 0, py = 0\<rparr>, rightIndex = None,
          activePluckers = [\<lparr>px = 50, py = 10\<rparr>]\<rparr>"
  by (simp add: extractLandmarks_def exampleEnv_def oneHand_def handStep_handWith tip_def
      fmul_def)

lemma onResults_example:
  "onResults exampleEnv twoHands (trackedState\<lparr>audioService := s\<rparr>) =
     Inr (\<lparr>prevHandPos = [0 \<mapsto> \<lparr>px = 50, py = 10\<rparr>, 1 \<mapsto> \<lparr>px = 75, py = - 15\<rparr>],
           ripples = [\<lparr>rid = 1000, rx = 50, ry = 10, age = 1, maxAge = 60, intensity = 1\<rparr>],
           audioService = playPluck (1 / 2) s\<rparr>,
          [\<lparr>slot = 0, point = \<lparr>px = 50, py = 10\<rparr>, normalizedPosition = 1 / 2\<rparr>])"
  apply (simp add: onResults_def extract_twoHands)
  apply (simp add: exampleEnv_def trackedState_def initialCanvasState_def pluckerStep_def
      cross_example no_cross_example spawnRipple_def advanceRipples_def
      ageRipples_def Let_def fdiv_def fadd_def)
  done

lemma exampleService_ready: "ready exampleService \<and> voices exampleService = []"
  by (simp add: exampleService_def exampleAudioEnv_def newAudioService_def initialize_def
      ready_def voices_def createImpulseResponse_def createGain_def createConvolver_def Let_def
      newAudioContext_def updNode_def connect_def List.map_filter_def)

lemma quantizedFreq_half: "quantizedFreq (1 / 2) = 500"
  by (simp add: quantizedFreq_def freq_def baseFreq_def freqRange_def fadd_def fmul_def fdiv_def
      Math_round_def)

lemma onResults_gap_example:
  "onResults exampleEnv oneHand trackedState = Inr (trackedState\<lparr>prevHandPos := Map.empty\<rparr>, [])"
proof -
  have "surface_ready exampleEnv" by (simp add: exampleEnv_def)
  from onResults_no_anchors [OF this extract_oneHand, of trackedState]
  show ?thesis
    by (simp add: trackedState_def initialCanvasState_def advanceRipples_def ageRipples_def)
qed

subsection \<open>The stored positions over a sequence of frames\<close>

lemma frameStep_dom:
  assumes "dom (prevHandPos st) \<subseteq> {0..<2}" and "numHands (snd f) \<le> 2"
  shows "dom (prevHandPos (frameStep st f)) \<subseteq> {0..<2}"
proof (cases "onResults (fst f) (snd f) st")
  case (Inl e)
  with assms(1) show ?thesis by (simp add: frameStep_def)
next
  case (Inr p)
  obtain st' evs where p: "p = (st', evs)" by (cases p)
  show ?thesis
  proof (cases "surface_ready (fst f)")
    case False
    with Inr p assms(1) show ?thesis by (simp add: frameStep_def onResults_def)
  next
    case True
    from onResults_dom [OF True, of "snd f" st st' evs] Inr p assms
    show ?thesis by (auto simp: frameStep_def split: if_splits)
  qed
qed

lemma runFrames_dom:
  assumes "dom (prevHandPos st) \<subseteq> {0..<2}" and "\<forall>f \<in> set fs. numHands (snd f) \<le> 2"
  shows "dom (prevHandPos (runFrames st fs)) \<subseteq> {0..<2}"
  using assms unfolding runFrames_def
proof (induction fs arbitrary: st)
  case Nil
  then show ?case by simp
next
  case (Cons f fs)
  from frameStep_dom [OF Cons.prems(1), of f] Cons.prems(2)
  have "dom (prevHandPos (frameStep st f)) \<subseteq> {0..<2}" by simp
  from Cons.IH [OF this] Cons.prems(2) show ?case by simp
qed


lemma size_after_frames:
  assumes "\<forall>f \<in> set fs. numHands (snd f) \<le> 2" and "numHands results \<le> 2"
    and "surface_ready env"
    and "onResults env results (runFrames initialCanvasState fs) = Inr (st', evs)"
  shows "card (dom (prevHandPos st')) = (if 2 \<le> numHands results then numHands results else 0)"
proof -
  have "dom (prevHandPos initialCanvasState) \<subseteq> {0..<2}"
    by (simp add: initialCanvasState_def)
  from runFrames_dom [OF this assms(1)]
  have d: "dom (prevHandPos (runFrames initialCanvasState fs)) \<subseteq> {0..<2}" .
  show ?thesis
  proof (cases "2 \<le> numHands results")
    case True
    with assms(2) have n: "numHands results = 2" by simp
    with onResults_dom [OF assms(3,4)] d
    have "dom (prevHandPos st') = {0..<2}" by auto
    with n show ?thesis by simp
  next
    case False
    with onResults_dom [OF assms(3,4)] show ?thesis by simp
  qed
qed


subsection \<open>The ripples over a sequence of frames\<close>

lemma filter_spawnAll_other:
  assumes "i \<notin> fst ` set calls"
  shows "filter (\<lambda>r. rid r = i) (spawnAll rs calls) = filter (\<lambda>r. rid r = i) rs"
proof -
  have "filter (\<lambda>r. rid r = i)
     (map (\<lambda>(fresh, x, y). \<lparr>rid = fresh, rx = x, ry = y, age = 0, maxAge = 60, intensity = 1\<rparr>) calls) = []"
    using assms by (force simp: filter_empty_conv)
  then show ?thesis by (simp add: spawnAll_eq)
qed

lemma filter_advanceRipples:
  "filter (\<lambda>r. rid r = i) (advanceRipples rs) = advanceRipples (filter (\<lambda>r. rid r = i) rs)"
  by (induction rs) (auto simp: advanceRipples_def ageRipples_def)

lemma filter_frameRipples_other:
  assumes "i \<notin> fst ` set calls"
  shows "filter (\<lambda>r. rid r = i) (frameRipples rs calls) = advanceRipples (filter (\<lambda>r. rid r = i) rs)"
  by (simp add: frameRipples_def filter_advanceRipples filter_spawnAll_other [OF assms])

lemma filter_liveAfter_other:
  assumes "\<forall>f \<in> set frames. i \<notin> fst ` set f"
  shows "filter (\<lambda>r. rid r = i) (liveAfter rs frames) =
    (advanceRipples ^^ length frames) (filter (\<lambda>r. rid r = i) rs)"
  using assms unfolding liveAfter_def
proof (induction frames arbitrary: rs)
  case Nil
  then show ?case by simp
next
  case (Cons f frames)
  then have "filter (\<lambda>r. rid r = i) (foldl frameRipples (frameRipples rs f) frames) =
      (advanceRipples ^^ length frames) (filter (\<lambda>r. rid r = i) (frameRipples rs f))"
    by simp
  also have "filter (\<lambda>r. rid r = i) (frameRipples rs f) = advanceRipples (filter (\<lambda>r. rid r = i) rs)"
    using Cons.prems by (simp add: filter_frameRipples_other)
  finally show ?case by (simp add: funpow_swap1)
qed

lemma advanceRipples_single:
  "advanceRipples [r] =
     (if fadd (age r) 1 < maxAge r then [r\<lparr>age := fadd (age r) 1\<rparr>] else [])"
  by (simp add: advanceRipples_def ageRipples_def)

text \<open>Ages are small whole numbers, which the addition does not round.\<close>

lemma fadd_age: "n < 60 \<Longrightarrow> fadd (real n) 1 = real (Suc n)"
proof -
  assume "n < 60"
  then have "\<bar>real n + 1\<bar> \<le> 2 ^ 53" by simp
  then have "fadd (real n) 1 = real n + 1" by (intro fadd_Ints) simp_all
  then show ?thesis by simp
qed

lemma advanceRipples_Nil: "advanceRipples [] = []"
  by (simp add: advanceRipples_def ageRipples_def)

lemma funpow_advance_Nil: "(advanceRipples ^^ n) [] = []"
  by (induction n) (simp_all add: advanceRipples_Nil)

lemma funpow_advance_single:
  assumes "age r = 0" and "maxAge r = 60"
  shows "(advanceRipples ^^ Suc n) [r] = (if Suc n < 60 then [r\<lparr>age := real (Suc n)\<rparr>] else [])"
proof (induction n)
  case 0
  from assms fadd_age [of 0] show ?case by (simp add: advanceRipples_single)
next
  case (Suc n)
  show ?case
  proof (cases "Suc n < 60")
    case True
    with Suc have "(advanceRipples ^^ Suc n) [r] = [r\<lparr>age := real (Suc n)\<rparr>]" by simp
    then have "(advanceRipples ^^ Suc (Suc n)) [r] = advanceRipples [r\<lparr>age := real (Suc n)\<rparr>]"
      by simp
    also have "\<dots> = (if Suc (Suc n) < 60 then [r\<lparr>age := real (Suc (Suc n))\<rparr>] else [])"
      using assms(2) fadd_age [OF True] by (simp add: advanceRipples_single)
    finally show ?thesis .
  next
    case False
    with Suc have "(advanceRipples ^^ Suc n) [r] = []" by simp
    then have "(advanceRipples ^^ Suc (Suc n)) [r] = []" by (simp add: advanceRipples_Nil)
    with False show ?thesis by simp
  qed
qed


lemma liveAfter_spawned:
  assumes "i \<notin> rid ` set rs" and "i \<notin> fst ` set pre" and "i \<notin> fst ` set post"
    and "\<forall>f \<in> set later. i \<notin> fst ` set f"
  shows "withId i (liveAfter rs ((pre @ (i, x, y) # post) # later)) =
    (if Suc (length later) < 60
     then [\<lparr>rid = i, rx = x, ry = y, age = real (Suc (length later)), maxAge = 60, intensity = 1\<rparr>]
     else [])"
proof -
  let ?r = "\<lparr>rid = i, rx = x, ry = y, age = 0, maxAge = 60, intensity = 1\<rparr>"
  have none: "filter (\<lambda>r. rid r = i) rs = []"
    using assms(1) by (auto simp: filter_empty_conv)
  have "filter (\<lambda>r. rid r = i) (spawnAll rs (pre @ (i, x, y) # post)) =
      filter (\<lambda>r. rid r = i) (spawnAll (spawnAll (spawnAll rs pre) [(i, x, y)]) post)"
    using spawnAll_append [of rs pre "(i, x, y) # post"]
      spawnAll_append [of "spawnAll rs pre" "[(i, x, y)]" post] by simp
  also have "\<dots> = filter (\<lambda>r. rid r = i) (spawnAll (spawnAll rs pre) [(i, x, y)])"
    by (rule filter_spawnAll_other [OF assms(3)])
  also have "\<dots> = filter (\<lambda>r. rid r = i) (spawnAll rs pre) @ [?r]"
    by (simp add: spawnAll_eq [of _ "[(i, x, y)]"])
  also have "\<dots> = [?r]"
    by (simp add: filter_spawnAll_other [OF assms(2)] none)
  finally have spawned: "filter (\<lambda>r. rid r = i) (spawnAll rs (pre @ (i, x, y) # post)) = [?r]" .
  have "liveAfter rs ((pre @ (i, x, y) # post) # later) =
      liveAfter (frameRipples rs (pre @ (i, x, y) # post)) later"
    by (simp add: liveAfter_def)
  then have "filter (\<lambda>r. rid r = i) (liveAfter rs ((pre @ (i, x, y) # post) # later)) =
      (advanceRipples ^^ length later)
        (filter (\<lambda>r. rid r = i) (frameRipples rs (pre @ (i, x, y) # post)))"
    by (simp add: filter_liveAfter_other [OF assms(4)])
  also have "filter (\<lambda>r. rid r = i) (frameRipples rs (pre @ (i, x, y) # post)) = advanceRipples [?r]"
    by (simp add: frameRipples_def filter_advanceRipples spawned)
  also have "(advanceRipples ^^ length later) (advanceRipples [?r]) =
      (advanceRipples ^^ Suc (length later)) [?r]"
    by (simp add: funpow_swap1)
  also have "\<dots> = (if Suc (length later) < 60
     then [?r\<lparr>age := real (Suc (length later))\<rparr>] else [])"
    by (rule funpow_advance_single) simp_all
  finally show ?thesis by (simp add: withId_def)
qed


section \<open>The claims about the per-frame callback\<close>

text \<open>
  Claim C2. In a frame that is drawn (on a surface of positive width), with both anchors
  present and a position stored for plucker \<open>i\<close>: if the intersection test is true of the
  segment from the stored position to the plucker's current position and the anchor
  segment, the callback returns, and among its plucks exactly one is for slot \<open>i\<close>, at the
  current position and with normalized position \<open>x / width\<close>; the current position is
  stored for the next frame. The plucks are what the frame does to the audio service and to
  the ripples: \<^verbatim>\<open>playPluck\<close> is called once for each pluck, in order, with its normalized
  position (adding one voice each when the service is ready), and \<^verbatim>\<open>spawnRipple\<close> once for
  each, before the ripples are aged; the ripple of the pluck for slot \<open>i\<close> is among the
  ripples the frame leaves, at the current position and with age 1. The example after it:
  anchors \<open>(0, 0)\<close> and \<open>(100, 0)\<close>, width 100, the plucker moving from \<open>(50, -10)\<close> to
  \<open>(50, 10)\<close>, normalized position \<open>1 / 2\<close>, a voice at 500 Hz.
\<close>

theorem pluck_on_crossing:
  assumes "surface_ready env" and "extractLandmarks env results = Inr ex"
    and "leftIndex ex = Some a" and "rightIndex ex = Some b"
    and "i < length (activePluckers ex)" and "prevHandPos st i = Some prev"
    and "getLineIntersection prev (activePluckers ex ! i) a b"
    and "0 < width env"
  shows "\<exists>st' evs. onResults env results st = Inr (st', evs) \<and>
     filter (\<lambda>e. slot e = i) evs =
       [\<lparr>slot = i, point = activePluckers ex ! i,
         normalizedPosition = fdiv (px (activePluckers ex ! i)) (width env)\<rparr>] \<and>
     prevHandPos st' i = Some (activePluckers ex ! i) \<and>
     audioService st' =
       foldl (\<lambda>s e. playPluck (normalizedPosition e) s) (audioService st) evs \<and>
     (ready (audioService st) \<longrightarrow>
        voices (audioService st') =
          voices (audioService st) @ map (\<lambda>e. [quantizedFreq (normalizedPosition e)]) evs) \<and>
     ripples st' = advanceRipples (spawnAll (ripples st) (spawnCalls env evs)) \<and>
     \<lparr>rid = freshId env i, rx = px (activePluckers ex ! i), ry = py (activePluckers ex ! i),
       age = 1, maxAge = 60, intensity = 1\<rparr> \<in> set (ripples st')"
proof -
  let ?L = "pluckersLoop env a b 0 (activePluckers ex) (st, [])"
  let ?e = "\<lparr>slot = i, point = activePluckers ex ! i,
        normalizedPosition = fdiv (px (activePluckers ex ! i)) (width env)\<rparr>"
  let ?st = "(fst ?L)\<lparr>ripples := advanceRipples (ripples (fst ?L))\<rparr>"
  have r: "onResults env results st = Inr (?st, snd ?L)"
    by (rule onResults_anchors [OF assms(1-4)])
  have f: "filter (\<lambda>e. slot e = i) (snd ?L) = [?e]"
    using assms(5-7) by (simp add: pluckersLoop_slot crossing_def)
  have p: "prevHandPos ?st i = Some (activePluckers ex ! i)"
    using assms(5) by (simp add: pluckersLoop_prev)
  from onResults_effects [OF assms(1) r]
  have rp: "ripples ?st = advanceRipples (spawnAll (ripples st) (spawnCalls env (snd ?L)))"
    and au: "audioService ?st =
      foldl (\<lambda>s e. playPluck (normalizedPosition e) s) (audioService st) (snd ?L)"
    by (simp_all add: frameRipples_def)
  have v: "ready (audioService st) \<longrightarrow>
        voices (audioService ?st) =
          voices (audioService st) @ map (\<lambda>e. [quantizedFreq (normalizedPosition e)]) (snd ?L)"
    unfolding au using voices_plucks [of "audioService st" "snd ?L"] by blast
  have "?e \<in> set (filter (\<lambda>e. slot e = i) (snd ?L))" unfolding f by simp
  then have "?e \<in> set (snd ?L)" by simp
  from ripple_of_pluck [OF this, of env "ripples st"]
  have m: "\<lparr>rid = freshId env i, rx = px (activePluckers ex ! i), ry = py (activePluckers ex ! i),
       age = 1, maxAge = 60, intensity = 1\<rparr> \<in> set (ripples ?st)"
    unfolding rp by simp
  from r f p au v rp m show ?thesis by blast
qed

theorem pluck_on_crossing_witness:
  "\<exists>st'. onResults exampleEnv twoHands playingState =
       Inr (st', [\<lparr>slot = 0, point = \<lparr>px = 50, py = 10\<rparr>, normalizedPosition = 1 / 2\<rparr>]) \<and>
     audioService st' = playPluck (1 / 2) exampleService \<and>
     voices (audioService st') = [[500]] \<and>
     ripples st' = [\<lparr>rid = 1000, rx = 50, ry = 10, age = 1, maxAge = 60, intensity = 1\<rparr>]"
proof -
  let ?ex = "\<lparr>leftIndex = Some \<lparr>px = 0, py = 0\<rparr>, rightIndex = Some \<lparr>px = 100, py = 0\<rparr>,
       activePluckers = [\<lparr>px = 50, py = 10\<rparr>, \<lparr>px = 75, py = - 15\<rparr>]\<rparr>"
  have h1: "surface_ready exampleEnv" by (simp add: exampleEnv_def)
  have h2: "leftIndex ?ex = Some \<lparr>px = 0, py = 0\<rparr>" by simp
  have h3: "rightIndex ?ex = Some \<lparr>px = 100, py = 0\<rparr>" by simp
  have h4: "0 < length (activePluckers ?ex)" by simp
  have h5: "prevHandPos playingState 0 = Some \<lparr>px = 50, py = - 10\<rparr>"
    by (simp add: playingState_def trackedState_def)
  have h6: "getLineIntersection \<lparr>px = 50, py = - 10\<rparr> (activePluckers ?ex ! 0)
      \<lparr>px = 0, py = 0\<rparr> \<lparr>px = 100, py = 0\<rparr>"
    using cross_example by simp
  have h7: "0 < width exampleEnv" by (simp add: exampleEnv_def)
  have s: "audioService playingState = exampleService" by (simp add: playingState_def)
  from pluck_on_crossing [OF h1 extract_twoHands h2 h3 h4 h5 h6 h7]
  obtain st' evs where o: "onResults exampleEnv twoHands playingState = Inr (st', evs)"
    and v: "ready (audioService playingState) \<longrightarrow>
        voices (audioService st') = voices (audioService playingState) @
          map (\<lambda>e. [quantizedFreq (normalizedPosition e)]) evs"
    by blast
  from onResults_example [of exampleService] o
  have e: "evs = [\<lparr>slot = 0, point = \<lparr>px = 50, py = 10\<rparr>, normalizedPosition = 1 / 2\<rparr>]"
    and a: "audioService st' = playPluck (1 / 2) exampleService"
    and r: "ripples st' = [\<lparr>rid = 1000, rx = 50, ry = 10, age = 1, maxAge = 60, intensity = 1\<rparr>]"
    by (auto simp: playingState_def)
  from v s e exampleService_ready have "voices (audioService st') = [[500]]"
    by (simp add: quantizedFreq_half)
  with o e a r show ?thesis by blast
qed

text \<open>
  Claim C3. A drawn frame with fewer than two hands makes no pluck and leaves the history
  empty, and the call after it makes no pluck either, whatever it is given.
\<close>

theorem no_pluck_after_gap:
  assumes "surface_ready env" and "numHands results < 2"
    and "onResults env results st = Inr (st1, evs1)"
  shows "evs1 = [] \<and> prevHandPos st1 = Map.empty \<and>
    (\<forall>env2 results2 st2 evs2. onResults env2 results2 st1 = Inr (st2, evs2) \<longrightarrow> evs2 = [])"
proof -
  from onResults_Inr_extract [OF assms(1,3)] obtain ex
    where ex: "extractLandmarks env results = Inr ex" by blast
  from extractLandmarks_anchors [OF ex] assms(2)
  have "leftIndex ex = None \<or> rightIndex ex = None" by auto
  from onResults_no_anchors [OF assms(1) ex this, of st] assms(3)
  have e: "evs1 = []" and p: "prevHandPos st1 = Map.empty" by auto
  from onResults_empty_history [OF p] e p show ?thesis by blast
qed

theorem no_pluck_after_gap_witness:
  "onResults exampleEnv oneHand trackedState = Inr (trackedState\<lparr>prevHandPos := Map.empty\<rparr>, []) \<and>
   (\<exists>st2. onResults exampleEnv twoHands (trackedState\<lparr>prevHandPos := Map.empty\<rparr>) = Inr (st2, []))"
proof -
  have h1: "surface_ready exampleEnv" by (simp add: exampleEnv_def)
  have h2: "numHands oneHand < 2" by (simp add: numHands_def oneHand_def)
  have h3: "leftIndex \<lparr>leftIndex = Some \<lparr>px = 0, py = 0\<rparr>, rightIndex = Some \<lparr>px = 100, py = 0\<rparr>,
       activePluckers = [\<lparr>px = 50, py = 10\<rparr>, \<lparr>px = 75, py = - 15\<rparr>]\<rparr> = Some \<lparr>px = 0, py = 0\<rparr>"
    by simp
  have h4: "rightIndex \<lparr>leftIndex = Some \<lparr>px = 0, py = 0\<rparr>, rightIndex = Some \<lparr>px = 100, py = 0\<rparr>,
       activePluckers = [\<lparr>px = 50, py = 10\<rparr>, \<lparr>px = 75, py = - 15\<rparr>]\<rparr> = Some \<lparr>px = 100, py = 0\<rparr>"
    by simp
  from onResults_anchors [OF h1 extract_twoHands h3 h4, of "trackedState\<lparr>prevHandPos := Map.empty\<rparr>"]
  obtain st2 evs2 where
    s2: "onResults exampleEnv twoHands (trackedState\<lparr>prevHandPos := Map.empty\<rparr>) = Inr (st2, evs2)"
    by blast
  from no_pluck_after_gap [OF h1 h2 onResults_gap_example] s2 have "evs2 = []" by blast
  with s2 onResults_gap_example show ?thesis by blast
qed

text \<open>
  Claim C4, as the code has it. \<^verbatim>\<open>spawnRipple\<close> runs in step 3 and the aging and cleanup in
  step 4 of the same call, so the spawn frame's own advance already ages the new ripple to
  1. A ripple spawned with a fresh id (age 0, \<open>maxAge\<close> 60) is therefore in the live set,
  with age \<open>k + 1\<close>, after the advance of the spawn frame and of \<open>k\<close> further frames exactly
  when \<open>k + 1 < 60\<close>: after 59 frames counted from the frame of its spawn, one fewer than
  \<open>maxAge\<close>. The advance of the 60th frame removes it, and it is absent after every later
  frame.
\<close>

theorem ripple_lifetime:
  assumes "i \<notin> rid ` set rs" and "i \<notin> fst ` set pre" and "i \<notin> fst ` set post"
    and "\<forall>f \<in> set later. i \<notin> fst ` set f"
  shows "withId i (liveAfter rs ((pre @ (i, x, y) # post) # later)) =
    (if length later + 1 < 60
     then [\<lparr>rid = i, rx = x, ry = y, age = real (length later + 1), maxAge = 60, intensity = 1\<rparr>]
     else [])"
  using liveAfter_spawned [OF assms, of x y] by simp

theorem ripple_lifetime_witness:
  "withId 7 (liveAfter [\<lparr>rid = 3, rx = 1, ry = 1, age = 20, maxAge = 60, intensity = 1\<rparr>]
     (([(5, 2, 2)] @ (7, 50, 10) # [(8, 4, 4)]) # [[], [(9, 0, 0)], []])) =
   [\<lparr>rid = 7, rx = 50, ry = 10, age = 4, maxAge = 60, intensity = 1\<rparr>]"
  using ripple_lifetime [of 7 "[\<lparr>rid = 3, rx = 1, ry = 1, age = 20, maxAge = 60, intensity = 1\<rparr>]"
    "[(5, 2, 2)]" "[(8, 4, 4)]" "[[], [(9, 0, 0)], []]" 50 10]
  by simp

text \<open>
  The claim as stated fails: after the advance of the 60th frame counted from the frame of
  its spawn (the spawn frame and 59 more) the ripple is gone.
\<close>

theorem ripple_lifetime_counterexample:
  "withId 7 (liveAfter [] ([(7, 50, 10)] # replicate 59 [])) = []"
  using liveAfter_spawned [of 7 "[]" "[]" "[]" "replicate 59 []" 50 10]
  by simp

text \<open>
  Claim C5, as the code has it. Over every sequence of frames of at most two hands each
  (the tracker is set to \<^verbatim>\<open>maxNumHands: 2\<close>), started from the initial state: after a drawn
  frame the number of stored positions is the number of detected pluckers when both anchors
  are present, and zero when they are not, the history having been reset.
\<close>

theorem pluckerState_size:
  assumes "\<forall>f \<in> set fs. numHands (snd f) \<le> 2" and "numHands results \<le> 2"
    and "surface_ready env"
    and "onResults env results (runFrames initialCanvasState fs) = Inr (st', evs)"
  shows "\<exists>ex. extractLandmarks env results = Inr ex \<and>
    card (dom (prevHandPos st')) =
      (if leftIndex ex \<noteq> None \<and> rightIndex ex \<noteq> None then length (activePluckers ex) else 0)"
proof -
  from onResults_Inr_extract [OF assms(3,4)] obtain ex
    where ex: "extractLandmarks env results = Inr ex" by blast
  from size_after_frames [OF assms] extractLandmarks_pluckers [OF ex]
    extractLandmarks_anchors [OF ex] ex
  show ?thesis by auto
qed

theorem pluckerState_size_witness:
  "\<exists>st' evs. onResults exampleEnv twoHands
       (runFrames initialCanvasState [(exampleEnv, oneHand)]) = Inr (st', evs) \<and>
     card (dom (prevHandPos st')) = 2"
proof -
  have h1: "surface_ready exampleEnv" by (simp add: exampleEnv_def)
  have h2: "numHands twoHands \<le> 2" by (simp add: numHands_def twoHands_def)
  have h3: "\<forall>f \<in> set [(exampleEnv, oneHand)]. numHands (snd f) \<le> 2"
    by (simp add: numHands_def oneHand_def)
  have h4: "leftIndex \<lparr>leftIndex = Some \<lparr>px = 0, py = 0\<rparr>, rightIndex = Some \<lparr>px = 100, py = 0\<rparr>,
       activePluckers = [\<lparr>px = 50, py = 10\<rparr>, \<lparr>px = 75, py = - 15\<rparr>]\<rparr> = Some \<lparr>px = 0, py = 0\<rparr>"
    by simp
  have h5: "rightIndex \<lparr>leftIndex = Some \<lparr>px = 0, py = 0\<rparr>, rightIndex = Some \<lparr>px = 100, py = 0\<rparr>,
       activePluckers = [\<lparr>px = 50, py = 10\<rparr>, \<lparr>px = 75, py = - 15\<rparr>]\<rparr> = Some \<lparr>px = 100, py = 0\<rparr>"
    by simp
  from onResults_anchors [OF h1 extract_twoHands h4 h5,
      of "runFrames initialCanvasState [(exampleEnv, oneHand)]"]
  obtain st' evs where s: "onResults exampleEnv twoHands
      (runFrames initialCanvasState [(exampleEnv, oneHand)]) = Inr (st', evs)"
    by blast
  from pluckerState_size [OF h3 h2 h1 s] extract_twoHands
  have "card (dom (prevHandPos st')) = 2" by auto
  with s show ?thesis by blast
qed

text \<open>
  The claim as stated fails at a frame with one hand, from the initial state: one plucker
  is detected and no position is stored.
\<close>

theorem pluckerState_size_counterexample:
  "length (activePluckers (projr (extractLandmarks exampleEnv oneHand))) = 1 \<and>
   onResults exampleEnv oneHand initialCanvasState = Inr (initialCanvasState, []) \<and>
   card (dom (prevHandPos (fst (projr (onResults exampleEnv oneHand initialCanvasState))))) = 0"
proof -
  have "surface_ready exampleEnv" by (simp add: exampleEnv_def)
  from onResults_no_anchors [OF this extract_oneHand, of initialCanvasState]
  show ?thesis
    by (simp add: extract_oneHand initialCanvasState_def advanceRipples_def ageRipples_def)
qed

end
